theory Spec2Isabelle
  imports Main "HOL-Library.Word"
begin

unbundle bit_operations_syntax

section \<open>Trap codes of the backend families\<close>

text \<open>
  The pinned headers \<^verbatim>\<open>x07_math_abi_v1.h\<close> and \<^verbatim>\<open>x07_time_abi_v1.h\<close> each declare an
  anonymous enum of trap codes. The argument of \<^verbatim>\<open>ev_trap\<close> is an \<^verbatim>\<open>int32_t\<close>; the
  enumerators are small constants, kept here as \<open>int\<close>.
\<close>

definition EV_TRAP_MATH_BADLEN_F64 :: int where
  "EV_TRAP_MATH_BADLEN_F64 = 9100"

definition EV_TRAP_MATH_BADLEN_U32 :: int where
  "EV_TRAP_MATH_BADLEN_U32 = 9101"

definition EV_TRAP_MATH_INTERNAL :: int where
  "EV_TRAP_MATH_INTERNAL = 9102"

definition EV_TRAP_TIME_INTERNAL :: int where
  "EV_TRAP_TIME_INTERNAL = 9200"

text \<open>The two families that declare trap codes, and the enumerators of each header.\<close>

datatype trap_family = Math | Time

fun trap_codes :: "trap_family \<Rightarrow> int list" where
  "trap_codes Math = [EV_TRAP_MATH_BADLEN_F64, EV_TRAP_MATH_BADLEN_U32, EV_TRAP_MATH_INTERNAL]"
| "trap_codes Time = [EV_TRAP_TIME_INTERNAL]"

text \<open>
  Modelled from the spec: the headers give no registry of families. The spec's
  "family N uses codes 9100+N*100 .. 9100+N*100+99" is written out here, with the math
  family as family 0 and the time family as family 1 (the order of their first codes).
\<close>

fun family_index :: "trap_family \<Rightarrow> int" where
  "family_index Math = 0"
| "family_index Time = 1"

definition band_lo :: "trap_family \<Rightarrow> int" where
  "band_lo f = 9100 + family_index f * 100"

definition band_hi :: "trap_family \<Rightarrow> int" where
  "band_hi f = 9100 + family_index f * 100 + 99"

definition in_band :: "trap_family \<Rightarrow> int \<Rightarrow> bool" where
  "in_band f c \<longleftrightarrow> band_lo f \<le> c \<and> c \<le> band_hi f"

section \<open>Buffer-slot tables of the zlib and OpenSSL shims\<close>

text \<open>
  \<^verbatim>\<open>zlib_shim.c\<close> and \<^verbatim>\<open>openssl_shim.c\<close> each keep two static arrays of
  \<^verbatim>\<open>MAX_BUFS = 4096\<close> entries: \<^verbatim>\<open>g_bufs\<close> (the buffer pointers) and \<^verbatim>\<open>g_lens\<close>.
  A pointer is modelled by what it points to: \<open>None\<close> is the null pointer,
  \<open>Some bs\<close> a heap block holding the bytes \<open>bs\<close> (every block is owned by one slot,
  so no two entries alias). Static storage starts zeroed.
\<close>

type_synonym u8 = "8 word"
type_synonym u32 = "32 word"

record buf_table =
  g_bufs :: "nat \<Rightarrow> u8 list option"
  g_lens :: "nat \<Rightarrow> u32"

definition empty_table :: buf_table where
  "empty_table = \<lparr>g_bufs = (\<lambda>_. None), g_lens = (\<lambda>_. 0)\<rparr>"

definition X07_EXT_ZLIB_MAX_BUFS :: u32 where
  "X07_EXT_ZLIB_MAX_BUFS = 4096"

definition X07_EXT_OPENSSL_MAX_BUFS :: u32 where
  "X07_EXT_OPENSSL_MAX_BUFS = 4096"

text \<open>
  The scan both shims share, \<^verbatim>\<open>for (uint32_t i = 1; i < MAX_BUFS; i++) if (!g_bufs[i]) return i;
  return 0;\<close>, as a recursion on the loop variable.
\<close>

function alloc_slot_loop :: "u32 \<Rightarrow> (nat \<Rightarrow> 'a option) \<Rightarrow> u32 \<Rightarrow> u32" where
  "alloc_slot_loop m bufs i =
     (if i < m then (if bufs (unat i) = None then i else alloc_slot_loop m bufs (i + 1)) else 0)"
  by pat_completeness auto
termination
proof (relation "measure (\<lambda>(m, bufs, i). unat m - unat i)")
  show "wf (measure (\<lambda>(m :: u32, bufs :: nat \<Rightarrow> 'a option, i :: u32). unat m - unat i))"
    by simp
next
  fix m i :: u32 and bufs :: "nat \<Rightarrow> 'a option"
  assume lt: "i < m"
  have "unat i < unat m" using lt by (simp add: word_less_nat_alt)
  moreover have "unat m < 2 ^ 32" using unsigned_less [of m] by simp
  ultimately have "unat i + 1 < 2 ^ 32" by linarith
  then have "unat (i + 1) = unat i + 1" by (simp add: unat_word_ariths)
  with \<open>unat i < unat m\<close>
  show "((m, bufs, i + 1), (m, bufs, i)) \<in> measure (\<lambda>(m, bufs, i). unat m - unat i)"
    by simp
qed

declare alloc_slot_loop.simps [simp del]

definition x07_ext_zlib_alloc_slot :: "buf_table \<Rightarrow> u32" where
  "x07_ext_zlib_alloc_slot t = alloc_slot_loop X07_EXT_ZLIB_MAX_BUFS (g_bufs t) 1"

definition x07_ext_openssl_alloc_buf_slot :: "buf_table \<Rightarrow> u32" where
  "x07_ext_openssl_alloc_buf_slot t = alloc_slot_loop X07_EXT_OPENSSL_MAX_BUFS (g_bufs t) 1"

text \<open>
  \<^verbatim>\<open>g_bufs[h] = buf; g_lens[h] = len;\<close>, the two assignments every producer makes
  after a slot was granted.
\<close>

definition store_slot :: "buf_table \<Rightarrow> u32 \<Rightarrow> u8 list option \<Rightarrow> u32 \<Rightarrow> buf_table" where
  "store_slot t h buf len =
     t\<lparr>g_bufs := (g_bufs t)(unat h := buf), g_lens := (g_lens t)(unat h := len)\<rparr>"

definition x07_ext_zlib_buf_len :: "buf_table \<Rightarrow> u32 \<Rightarrow> u32" where
  "x07_ext_zlib_buf_len t handle =
     (if handle = 0 \<or> X07_EXT_ZLIB_MAX_BUFS \<le> handle then 0 else g_lens t (unat handle))"

definition x07_ext_zlib_buf_ptr :: "buf_table \<Rightarrow> u32 \<Rightarrow> u8 list option" where
  "x07_ext_zlib_buf_ptr t handle =
     (if handle = 0 \<or> X07_EXT_ZLIB_MAX_BUFS \<le> handle then None else g_bufs t (unat handle))"

definition x07_ext_zlib_buf_free :: "u32 \<Rightarrow> buf_table \<Rightarrow> buf_table" where
  "x07_ext_zlib_buf_free handle t =
     (if handle = 0 \<or> X07_EXT_ZLIB_MAX_BUFS \<le> handle then t
      else t\<lparr>g_bufs := (g_bufs t)(unat handle := None),
             g_lens := (g_lens t)(unat handle := 0)\<rparr>)"

definition x07_ext_openssl_buf_len :: "buf_table \<Rightarrow> u32 \<Rightarrow> u32" where
  "x07_ext_openssl_buf_len t handle =
     (if handle = 0 \<or> X07_EXT_OPENSSL_MAX_BUFS \<le> handle then 0 else g_lens t (unat handle))"

definition x07_ext_openssl_buf_ptr :: "buf_table \<Rightarrow> u32 \<Rightarrow> u8 list option" where
  "x07_ext_openssl_buf_ptr t handle =
     (if handle = 0 \<or> X07_EXT_OPENSSL_MAX_BUFS \<le> handle then None else g_bufs t (unat handle))"

definition x07_ext_openssl_buf_free :: "u32 \<Rightarrow> buf_table \<Rightarrow> buf_table" where
  "x07_ext_openssl_buf_free handle t =
     (if handle = 0 \<or> X07_EXT_OPENSSL_MAX_BUFS \<le> handle then t
      else t\<lparr>g_bufs := (g_bufs t)(unat handle := None),
             g_lens := (g_lens t)(unat handle := 0)\<rparr>)"

text \<open>
  A slot as static initialisation and \<^verbatim>\<open>buf_free\<close> leave it: null pointer, length 0.
  A handle is live when its slot holds a buffer.
\<close>

definition slot_vacant :: "buf_table \<Rightarrow> u32 \<Rightarrow> bool" where
  "slot_vacant t h \<longleftrightarrow> g_bufs t (unat h) = None \<and> g_lens t (unat h) = 0"

definition live_handle :: "buf_table \<Rightarrow> u32 \<Rightarrow> bool" where
  "live_handle t h \<longleftrightarrow> g_bufs t (unat h) \<noteq> None"

section \<open>Result documents of the OpenSSL shim\<close>

text \<open>
  \<^verbatim>\<open>x07_ext_write_u32_le(dst, v)\<close> stores four bytes at \<^verbatim>\<open>dst[0..3]\<close>; the model
  returns them in order.
\<close>

definition x07_ext_write_u32_le :: "u32 \<Rightarrow> u8 list" where
  "x07_ext_write_u32_le v =
     [ucast (v AND 0xff), ucast (drop_bit 8 v AND 0xff),
      ucast (drop_bit 16 v AND 0xff), ucast (drop_bit 24 v AND 0xff)]"

text \<open>
  \<^verbatim>\<open>x07_ext_make_err_doc(code, &out_len)\<close>: \<^verbatim>\<open>malloc(9)\<close>, whose result is the input
  \<open>malloc_ok\<close>, then the tag byte 0, the code and a zero word; every byte of the block
  is written. The result is the block and the value left in \<^verbatim>\<open>*out_len\<close>.
\<close>

definition x07_ext_make_err_doc :: "bool \<Rightarrow> u32 \<Rightarrow> (u8 list \<times> u32) option" where
  "x07_ext_make_err_doc malloc_ok code =
     (if \<not> malloc_ok then None
      else Some (0 # x07_ext_write_u32_le code @ x07_ext_write_u32_le 0, 9))"

text \<open>
  What \<^verbatim>\<open>x07_ext_openssl_rand_bytes_alloc\<close> gets from outside: whether
  \<^verbatim>\<open>malloc(need)\<close> and the \<^verbatim>\<open>malloc(9)\<close> of the error document return a block,
  whether \<^verbatim>\<open>RAND_bytes\<close> returns 1, and the bytes it then writes.
\<close>

record rand_env =
  malloc_doc :: bool
  malloc_err :: bool
  rand_ok :: bool
  rand_byte :: "nat \<Rightarrow> u8"

text \<open>
  The result is the returned \<^verbatim>\<open>int32_t\<close>, the value left in \<^verbatim>\<open>*out_handle\<close> (set to 0
  on entry) and the table afterwards.
\<close>

definition x07_ext_openssl_rand_bytes_alloc ::
  "rand_env \<Rightarrow> u32 \<Rightarrow> buf_table \<Rightarrow> int \<times> u32 \<times> buf_table" where
  "x07_ext_openssl_rand_bytes_alloc env len t =
     (if 1024 * 1024 < len then
        (case x07_ext_make_err_doc (malloc_err env) 3 of
           None \<Rightarrow> (- 1, 0, t)
         | Some (doc, doc_len) \<Rightarrow>
             (let slot = x07_ext_openssl_alloc_buf_slot t in
              if slot = 0 then (- 1, 0, t)
              else (0, slot, store_slot t slot (Some doc) doc_len)))
      else
        (let need = 1 + len in
         if \<not> malloc_doc env then (- 1, 0, t)
         else
           (case (if len \<noteq> 0 \<and> \<not> rand_ok env
                  then x07_ext_make_err_doc (malloc_err env) 1
                  else Some (1 # map (rand_byte env) [0..<unat len], need)) of
              None \<Rightarrow> (- 1, 0, t)
            | Some (doc, need') \<Rightarrow>
                (let slot = x07_ext_openssl_alloc_buf_slot t in
                 if slot = 0 then (- 1, 0, t)
                 else (0, slot, store_slot t slot (Some doc) need')))))"

text \<open>
  The table after 4095 calls \<^verbatim>\<open>x07_ext_openssl_rand_bytes_alloc(0, &h)\<close> with nothing
  freed: every slot 1..4095 holds the one-byte document \<open>[1]\<close>. And an environment in
  which every allocation and the generator succeed.
\<close>

definition full_table :: buf_table where
  "full_table =
     \<lparr>g_bufs = (\<lambda>i. if 1 \<le> i \<and> i < 4096 then Some [1] else None),
      g_lens = (\<lambda>i. if 1 \<le> i \<and> i < 4096 then 1 else 0)\<rparr>"

definition env_all_ok :: rand_env where
  "env_all_ok = \<lparr>malloc_doc = True, malloc_err = True, rand_ok = True, rand_byte = (\<lambda>i. of_nat i)\<rparr>"

section \<open>Unpadded base64url in the OpenSSL shim\<close>

text \<open>
  \<^verbatim>\<open>x07_ext_b64url_char\<close> indexes the 64-character table with \<^verbatim>\<open>v & 0x3f\<close>.
\<close>

definition b64url_tbl :: string where
  "b64url_tbl = ''ABCDEFGHIJKLMNOPQRSTUVWXYZabcdefghijklmnopqrstuvwxyz0123456789-_''"

definition x07_ext_b64url_char :: "u8 \<Rightarrow> char" where
  "x07_ext_b64url_char v = b64url_tbl ! unat (v AND 0x3f)"

text \<open>
  \<^verbatim>\<open>x07_ext_b64url_nopad(data, len, out_len)\<close>. The sizes are \<^verbatim>\<open>size_t\<close>; they are
  kept as \<open>nat\<close>, since for the length of an object in memory (at most \<^verbatim>\<open>PTRDIFF_MAX\<close>)
  neither \<^verbatim>\<open>len + 2\<close> nor \<^verbatim>\<open>cap + 1\<close> wraps. \<open>out\<close> is what has been written to the
  output buffer so far: the code's \<^verbatim>\<open>j\<close> is its length. The main loop:
\<close>

function b64url_loop :: "u8 list \<Rightarrow> nat \<Rightarrow> nat \<Rightarrow> char list \<Rightarrow> nat \<times> char list" where
  "b64url_loop data len i out =
     (if i + 3 \<le> len then
        (let v = (push_bit 16 (ucast (data ! i)) OR push_bit 8 (ucast (data ! (i + 1)))
                  OR ucast (data ! (i + 2)) :: u32)
         in b64url_loop data len (i + 3)
              (out @ [x07_ext_b64url_char (ucast (drop_bit 18 v AND 0x3f)),
                      x07_ext_b64url_char (ucast (drop_bit 12 v AND 0x3f)),
                      x07_ext_b64url_char (ucast (drop_bit 6 v AND 0x3f)),
                      x07_ext_b64url_char (ucast (v AND 0x3f))]))
      else (i, out))"
  by pat_completeness auto
termination
  by (relation "measure (\<lambda>(data, len, i, out). len - i)") auto

declare b64url_loop.simps [simp del]

text \<open>The one or two bytes left after the loop (\<^verbatim>\<open>rem = len - i\<close>).\<close>

definition b64url_tail :: "u8 list \<Rightarrow> nat \<Rightarrow> nat \<Rightarrow> char list \<Rightarrow> char list" where
  "b64url_tail data len i out =
     (let rem = len - i in
      if rem = 1 then
        (let v = (push_bit 16 (ucast (data ! i)) :: u32)
         in out @ [x07_ext_b64url_char (ucast (drop_bit 18 v AND 0x3f)),
                   x07_ext_b64url_char (ucast (drop_bit 12 v AND 0x3f))])
      else if rem = 2 then
        (let v = (push_bit 16 (ucast (data ! i)) OR push_bit 8 (ucast (data ! (i + 1))) :: u32)
         in out @ [x07_ext_b64url_char (ucast (drop_bit 18 v AND 0x3f)),
                   x07_ext_b64url_char (ucast (drop_bit 12 v AND 0x3f)),
                   x07_ext_b64url_char (ucast (drop_bit 6 v AND 0x3f))])
      else out)"

text \<open>
  The whole function. \<open>data = None\<close> is a null \<^verbatim>\<open>data\<close>, \<open>malloc_ok\<close> says whether
  \<^verbatim>\<open>malloc(cap + 1)\<close> returned a block. The result is the buffer up to and including the
  terminating NUL, and the value left in \<^verbatim>\<open>*out_len\<close>; \<open>None\<close> is the null return.
\<close>

definition x07_ext_b64url_nopad ::
  "bool \<Rightarrow> u8 list option \<Rightarrow> nat \<Rightarrow> (char list \<times> nat) option" where
  "x07_ext_b64url_nopad malloc_ok data len =
     (if data = None \<and> len \<noteq> 0 then None
      else if \<not> malloc_ok then None
      else
        (let d = (case data of None \<Rightarrow> [] | Some bs \<Rightarrow> bs);
             (i, out) = b64url_loop d len 0 [];
             out' = b64url_tail d len i out
         in Some (out' @ [CHR 0x00], length out')))"

text \<open>
  The reference decoder, written from RFC 4648 section 5 (base64url) without padding, not
  from the shim, which has no decoder: each character stands for its position in the
  alphabet, four characters give three bytes, a final group of two or three characters
  gives one or two bytes, and a single left-over character is invalid.
\<close>

fun index_of :: "'a \<Rightarrow> 'a list \<Rightarrow> nat option" where
  "index_of x [] = None"
| "index_of x (y # ys) = (if x = y then Some 0 else map_option Suc (index_of x ys))"

definition b64url_value :: "char \<Rightarrow> u32 option" where
  "b64url_value c = map_option of_nat (index_of c b64url_tbl)"

fun b64url_decode :: "char list \<Rightarrow> u8 list option" where
  "b64url_decode [] = Some []"
| "b64url_decode [c1] = None"
| "b64url_decode [c1, c2] =
     (case (b64url_value c1, b64url_value c2) of
        (Some s1, Some s2) \<Rightarrow>
          (let v = push_bit 18 s1 OR push_bit 12 s2 in Some [ucast (drop_bit 16 v)])
      | _ \<Rightarrow> None)"
| "b64url_decode [c1, c2, c3] =
     (case (b64url_value c1, b64url_value c2, b64url_value c3) of
        (Some s1, Some s2, Some s3) \<Rightarrow>
          (let v = push_bit 18 s1 OR push_bit 12 s2 OR push_bit 6 s3
           in Some [ucast (drop_bit 16 v), ucast (drop_bit 8 v)])
      | _ \<Rightarrow> None)"
| "b64url_decode (c1 # c2 # c3 # c4 # rest) =
     (case (b64url_value c1, b64url_value c2, b64url_value c3, b64url_value c4) of
        (Some s1, Some s2, Some s3, Some s4) \<Rightarrow>
          (let v = push_bit 18 s1 OR push_bit 12 s2 OR push_bit 6 s3 OR s4
           in map_option (\<lambda>bs. ucast (drop_bit 16 v) # ucast (drop_bit 8 v) # ucast v # bs)
                (b64url_decode rest))
      | _ \<Rightarrow> None)"

text \<open>The alphabet in the claim's words: \<open>A-Z\<close>, \<open>a-z\<close>, \<open>0-9\<close>, \<open>-\<close> and \<open>_\<close>.\<close>

definition is_url_safe :: "char \<Rightarrow> bool" where
  "is_url_safe c \<longleftrightarrow>
     (65 \<le> (of_char c :: nat) \<and> (of_char c :: nat) \<le> 90) \<or>
     (97 \<le> (of_char c :: nat) \<and> (of_char c :: nat) \<le> 122) \<or>
     (48 \<le> (of_char c :: nat) \<and> (of_char c :: nat) \<le> 57) \<or>
     c = CHR ''-'' \<or> c = CHR ''_''"

text \<open>
  The encoder's output as a recursion on the input list, three bytes at a time; the
  proofs relate the loop to it.
\<close>

fun b64url_groups :: "u8 list \<Rightarrow> char list" where
  "b64url_groups (a # b # c # rest) =
     (let v = (push_bit 16 (ucast a) OR push_bit 8 (ucast b) OR ucast c :: u32)
      in [x07_ext_b64url_char (ucast (drop_bit 18 v AND 0x3f)),
          x07_ext_b64url_char (ucast (drop_bit 12 v AND 0x3f)),
          x07_ext_b64url_char (ucast (drop_bit 6 v AND 0x3f)),
          x07_ext_b64url_char (ucast (v AND 0x3f))]) @ b64url_groups rest"
| "b64url_groups [a, b] =
     (let v = (push_bit 16 (ucast a) OR push_bit 8 (ucast b) :: u32)
      in [x07_ext_b64url_char (ucast (drop_bit 18 v AND 0x3f)),
          x07_ext_b64url_char (ucast (drop_bit 12 v AND 0x3f)),
          x07_ext_b64url_char (ucast (drop_bit 6 v AND 0x3f))])"
| "b64url_groups [a] =
     (let v = (push_bit 16 (ucast a) :: u32)
      in [x07_ext_b64url_char (ucast (drop_bit 18 v AND 0x3f)),
          x07_ext_b64url_char (ucast (drop_bit 12 v AND 0x3f))])"
| "b64url_groups [] = []"

section \<open>Traps, and the writer handles of the fs backend\<close>

text \<open>
  \<^verbatim>\<open>void ev_trap(int32_t code)\<close> is the runtime's trap hook: a call that ends in it does
  not return a value. An entry point that can trap has an \<open>outcome\<close>.
\<close>

datatype 'a outcome = Trap int | Ret 'a

text \<open>
  Modelled from the spec: \<^verbatim>\<open>x07_ext_fs_abi_v1.h\<close> declares
  \<^verbatim>\<open>int32_t x07_ext_fs_stream_drop_v1(int32_t writer_handle)\<close>, and the fs backend that
  implements it is not among the sources. The spec's words are: backends hand out an
  opaque 32-bit handle, the lifecycle is open, then operations, then close or drop, and
  "a drop on an already-closed or invalid handle must be a safe no-op, never a trap".
  The writer table maps the open handles (the bit pattern of the \<^verbatim>\<open>int32_t\<close>) to the bytes
  written so far; a closed,
  dropped or never issued handle is not in the table. The \<^verbatim>\<open>int32_t\<close> status that drop
  returns is not described by the spec and is left out.
\<close>

type_synonym fs_writers = "u32 \<rightharpoonup> u8 list"

definition x07_ext_fs_stream_drop_v1 :: "u32 \<Rightarrow> fs_writers \<Rightarrow> fs_writers outcome" where
  "x07_ext_fs_stream_drop_v1 writer_handle w =
     (case w writer_handle of
        None \<Rightarrow> Ret w
      | Some _ \<Rightarrow> Ret (w(writer_handle := None)))"

section \<open>The math backend\<close>

text \<open>
  Modelled from the spec: \<^verbatim>\<open>x07_math_abi_v1.h\<close> declares the math entry points and
  states their conventions in comments; the library that implements them is not among
  the sources. The conventions are: "f64 values are encoded as 8 bytes, little-endian
  IEEE-754 binary64 bit patterns", "u32 values are encoded as 4 bytes, little-endian",
  and every function traps "with \<^verbatim>\<open>EV_TRAP_MATH_BADLEN_*\<close> if any input byte string has the
  wrong length". An \<^verbatim>\<open>ev_bytes\<close> value is the list of its bytes; an f64 is its 64-bit
  pattern, which covers every NaN payload, both zeros and both infinities.

  Little-endian bytes of a word, least significant byte first, and the word of a byte
  list:
\<close>

type_synonym u64 = "64 word"

fun le_bytes :: "nat \<Rightarrow> 'a::len word \<Rightarrow> u8 list" where
  "le_bytes 0 w = []"
| "le_bytes (Suc n) w = ucast w # le_bytes n (drop_bit 8 w)"

fun le_word :: "u8 list \<Rightarrow> 'a::len word" where
  "le_word [] = 0"
| "le_word (b # bs) = ucast b OR push_bit 8 (le_word bs)"

text \<open>
  Modelled from the spec: the fixed-width codecs. Decoding a buffer of the wrong length
  traps with the family's bad-length code (9100 for f64, 9101 for u32).
\<close>

definition encode_u32le :: "u32 \<Rightarrow> u8 list" where
  "encode_u32le v = le_bytes 4 v"

definition decode_u32le :: "u8 list \<Rightarrow> u32 outcome" where
  "decode_u32le bs = (if length bs \<noteq> 4 then Trap EV_TRAP_MATH_BADLEN_U32 else Ret (le_word bs))"

definition encode_f64le :: "u64 \<Rightarrow> u8 list" where
  "encode_f64le w = le_bytes 8 w"

definition decode_f64le :: "u8 list \<Rightarrow> u64 outcome" where
  "decode_f64le bs = (if length bs \<noteq> 8 then Trap EV_TRAP_MATH_BADLEN_F64 else Ret (le_word bs))"

text \<open>
  Modelled from the spec: the declared entry points that take f64 byte payloads (the
  header declares none that takes a u32 payload). What IEEE-754 arithmetic, formatting and
  truncation compute is a parameter \<open>sem\<close> on bit patterns: the claims are about lengths
  and encodings, not about floating-point results. \<^verbatim>\<open>ev_result_i32\<close> is the tagged union
  of the header (tag 1 = Ok, 0 = Err). Every input is decoded before anything is
  computed; \<^verbatim>\<open>ev_math_f64_to_bits_u64le_v1\<close> returns "the raw IEEE-754 binary64 bits as
  u64le bytes".
\<close>

datatype f64_unop = F64_neg | F64_abs | F64_tan | F64_sqrt | F64_floor | F64_ceil
  | F64_sin | F64_cos | F64_exp | F64_ln

datatype f64_binop = F64_add | F64_sub | F64_mul | F64_div | F64_pow | F64_atan2
  | F64_min | F64_max

datatype ev_result_i32 = Ok_i32 u32 | Err_i32 u32

record f64_sem =
  unop_sem :: "f64_unop \<Rightarrow> u64 \<Rightarrow> u64"
  binop_sem :: "f64_binop \<Rightarrow> u64 \<Rightarrow> u64 \<Rightarrow> u64"
  cmp_sem :: "u64 \<Rightarrow> u64 \<Rightarrow> u32"
  fmt_sem :: "u64 \<Rightarrow> u8 list"
  trunc_sem :: "u64 \<Rightarrow> ev_result_i32"

definition with_f64 :: "u8 list \<Rightarrow> (u64 \<Rightarrow> 'a outcome) \<Rightarrow> 'a outcome" where
  "with_f64 x k = (case decode_f64le x of Trap c \<Rightarrow> Trap c | Ret w \<Rightarrow> k w)"

definition ev_math_f64_unop_v1 :: "f64_sem \<Rightarrow> f64_unop \<Rightarrow> u8 list \<Rightarrow> u8 list outcome" where
  "ev_math_f64_unop_v1 sem op x = with_f64 x (\<lambda>a. Ret (encode_f64le (unop_sem sem op a)))"

definition ev_math_f64_binop_v1 ::
  "f64_sem \<Rightarrow> f64_binop \<Rightarrow> u8 list \<Rightarrow> u8 list \<Rightarrow> u8 list outcome" where
  "ev_math_f64_binop_v1 sem op a b =
     with_f64 a (\<lambda>x. with_f64 b (\<lambda>y. Ret (encode_f64le (binop_sem sem op x y))))"

definition ev_math_f64_cmp_v1 :: "f64_sem \<Rightarrow> u8 list \<Rightarrow> u8 list \<Rightarrow> u8 list outcome" where
  "ev_math_f64_cmp_v1 sem a b =
     with_f64 a (\<lambda>x. with_f64 b (\<lambda>y. Ret (encode_u32le (cmp_sem sem x y))))"

definition ev_math_f64_fmt_shortest_v1 :: "f64_sem \<Rightarrow> u8 list \<Rightarrow> u8 list outcome" where
  "ev_math_f64_fmt_shortest_v1 sem x = with_f64 x (\<lambda>a. Ret (fmt_sem sem a))"

definition ev_math_f64_to_i32_trunc_v1 :: "f64_sem \<Rightarrow> u8 list \<Rightarrow> ev_result_i32 outcome" where
  "ev_math_f64_to_i32_trunc_v1 sem x = with_f64 x (\<lambda>a. Ret (trunc_sem sem a))"

definition ev_math_f64_to_bits_u64le_v1 :: "u8 list \<Rightarrow> u8 list outcome" where
  "ev_math_f64_to_bits_u64le_v1 x = with_f64 x (\<lambda>a. Ret (le_bytes 8 a))"

text \<open>A semantics to run the entry points on concrete inputs.\<close>

definition sem_bits :: f64_sem where
  "sem_bits = \<lparr>unop_sem = (\<lambda>op w. w), binop_sem = (\<lambda>op a b. a), cmp_sem = (\<lambda>a b. 3),
     fmt_sem = (\<lambda>w. []), trunc_sem = (\<lambda>w. Err_i32 1)\<rparr>"

section \<open>The emit channel of the transducer plugin protocol\<close>

text \<open>
  The buffer descriptor and the budget of \<^verbatim>\<open>x07_stream_xf_plugin_abi_v1.h\<close>. The fields
  of \<^verbatim>\<open>x07_out_buf_v1\<close> are \<^verbatim>\<open>ptr\<close>, \<^verbatim>\<open>cap\<close> and \<^verbatim>\<open>len\<close> ("plugin sets len <= cap
  before commit"); they carry the prefix \<open>out_\<close> here. A pointer is an address.
\<close>

record x07_out_buf_v1 =
  out_ptr :: nat
  out_cap :: u32
  out_len :: u32

record x07_xf_budget_v1 =
  max_out_bytes_per_step :: u32
  max_out_items_per_step :: u32
  max_out_buf_bytes :: u32
  max_state_bytes :: u32
  max_cfg_bytes :: u32
  max_scratch_bytes :: u32

text \<open>
  Modelled from the spec: the header declares \<^verbatim>\<open>emit_alloc\<close> and \<^verbatim>\<open>emit_commit\<close> only as
  function pointers of \<^verbatim>\<open>x07_xf_emit_v1\<close>; the host that implements them is not among
  the sources. The spec's words are: alloc "requests a writable buffer of a requested
  capacity (host may refuse, signaled by a non-zero return)"; the budget is
  "authoritatively enforced by the host at the EmitChannel boundary (refusing over-budget
  allocate requests)"; each emission is "bounded by the Budget's per-step byte/item
  ceilings and by the EmitChannel's own granted capacity"; and on commit "the host
  validates used \<le> cap before accepting it into the output stream". The host keeps the
  budget, what is left of the per-step byte and item ceilings, and the output stream (the
  accepted descriptors, in order). Every lifecycle call (init, step, flush) starts with
  the full per-step allowance. The spec says only "non-zero" for a refusal:
  \<open>EMIT_REFUSED\<close> stands for it. \<open>p\<close> is the address of the buffer the host hands out.
\<close>

record emit_host =
  host_budget :: x07_xf_budget_v1
  bytes_left :: u32
  items_left :: u32
  out_stream :: "x07_out_buf_v1 list"

definition EMIT_REFUSED :: int where
  "EMIT_REFUSED = 1"

definition host_begin_step :: "emit_host \<Rightarrow> emit_host" where
  "host_begin_step h =
     h\<lparr>bytes_left := max_out_bytes_per_step (host_budget h),
       items_left := max_out_items_per_step (host_budget h)\<rparr>"

definition host_new :: "x07_xf_budget_v1 \<Rightarrow> emit_host" where
  "host_new b = host_begin_step \<lparr>host_budget = b, bytes_left = 0, items_left = 0, out_stream = []\<rparr>"

definition emit_alloc :: "emit_host \<Rightarrow> nat \<Rightarrow> u32 \<Rightarrow> int \<times> x07_out_buf_v1 option" where
  "emit_alloc h p cap =
     (if bytes_left h < cap \<or> items_left h = 0 then (EMIT_REFUSED, None)
      else (0, Some \<lparr>out_ptr = p, out_cap = cap, out_len = 0\<rparr>))"

definition emit_commit :: "emit_host \<Rightarrow> x07_out_buf_v1 \<Rightarrow> int \<times> emit_host" where
  "emit_commit h out =
     (if out_cap out < out_len out \<or> bytes_left h < out_len out \<or> items_left h = 0
      then (EMIT_REFUSED, h)
      else (0, h\<lparr>out_stream := out_stream h @ [out],
                  bytes_left := bytes_left h - out_len out,
                  items_left := items_left h - 1\<rparr>))"

text \<open>
  Modelled from the spec: one instance's host as driven by any sequence of lifecycle
  starts and emit calls (an alloc changes nothing in the host).
\<close>

datatype host_call = Begin_step | Alloc nat u32 | Commit x07_out_buf_v1

fun host_do :: "emit_host \<Rightarrow> host_call \<Rightarrow> emit_host" where
  "host_do h Begin_step = host_begin_step h"
| "host_do h (Alloc p cap) = h"
| "host_do h (Commit out) = snd (emit_commit h out)"

definition host_run :: "x07_xf_budget_v1 \<Rightarrow> host_call list \<Rightarrow> emit_host" where
  "host_run b calls = foldl host_do (host_new b) calls"

text \<open>
  The budget of the spec's end-to-end scenario, \<^verbatim>\<open>max_out_bytes_per_step = 16\<close>.
\<close>

definition budget16 :: x07_xf_budget_v1 where
  "budget16 =
     \<lparr>max_out_bytes_per_step = 16, max_out_items_per_step = 4, max_out_buf_bytes = 64,
      max_state_bytes = 64, max_cfg_bytes = 64, max_scratch_bytes = 64\<rparr>"

text \<open>What every host state reached by \<open>host_run\<close> satisfies.\<close>

definition host_ok :: "emit_host \<Rightarrow> bool" where
  "host_ok h \<longleftrightarrow>
     bytes_left h \<le> max_out_bytes_per_step (host_budget h) \<and>
     list_all (\<lambda>out. out_len out \<le> out_cap out) (out_stream h)"

section \<open>Theorems\<close>

lemma in_band_Math: "in_band Math c \<longleftrightarrow> 9100 \<le> c \<and> c \<le> 9199"
  by (simp add: in_band_def band_lo_def band_hi_def)

lemma in_band_Time: "in_band Time c \<longleftrightarrow> 9200 \<le> c \<and> c \<le> 9299"
  by (simp add: in_band_def band_lo_def band_hi_def)

lemma bands_disjoint: "in_band f c \<Longrightarrow> in_band g c \<Longrightarrow> f = g"
  by (cases f; cases g) (simp_all add: in_band_Math in_band_Time)

text \<open>
  Claim C6. Every trap code that a family's header defines lies in that family's own
  100-wide band (math: 9100..9199, time: 9200..9299), and no code lies in the bands of
  two different families.
\<close>

theorem trap_codes_in_own_band:
  "(\<forall>f. \<forall>c \<in> set (trap_codes f). in_band f c) \<and>
   (\<forall>c \<in> set (trap_codes Math). 9100 \<le> c \<and> c \<le> 9199) \<and>
   (\<forall>c \<in> set (trap_codes Time). 9200 \<le> c \<and> c \<le> 9299) \<and>
   (\<forall>f g c. f \<noteq> g \<longrightarrow> \<not> (in_band f c \<and> in_band g c))"
proof (intro conjI)
  show "\<forall>f. \<forall>c \<in> set (trap_codes f). in_band f c"
  proof
    fix f show "\<forall>c \<in> set (trap_codes f). in_band f c"
      by (cases f)
         (simp_all add: in_band_Math in_band_Time EV_TRAP_MATH_BADLEN_F64_def
            EV_TRAP_MATH_BADLEN_U32_def EV_TRAP_MATH_INTERNAL_def EV_TRAP_TIME_INTERNAL_def)
  qed
  show "\<forall>c \<in> set (trap_codes Math). 9100 \<le> c \<and> c \<le> 9199"
    by (simp add: EV_TRAP_MATH_BADLEN_F64_def EV_TRAP_MATH_BADLEN_U32_def
          EV_TRAP_MATH_INTERNAL_def)
  show "\<forall>c \<in> set (trap_codes Time). 9200 \<le> c \<and> c \<le> 9299"
    by (simp add: EV_TRAP_TIME_INTERNAL_def)
  show "\<forall>f g c. f \<noteq> g \<longrightarrow> \<not> (in_band f c \<and> in_band g c)"
    using bands_disjoint by blast
qed

theorem trap_codes_in_own_band_witness:
  "EV_TRAP_MATH_BADLEN_U32 \<in> set (trap_codes Math) \<and> in_band Math EV_TRAP_MATH_BADLEN_U32 \<and>
   EV_TRAP_TIME_INTERNAL \<in> set (trap_codes Time) \<and> in_band Time EV_TRAP_TIME_INTERNAL \<and>
   Math \<noteq> Time \<and> \<not> (in_band Math 9200 \<and> in_band Time 9200)"
  using trap_codes_in_own_band
  by (simp add: in_band_Math in_band_Time EV_TRAP_MATH_BADLEN_U32_def EV_TRAP_TIME_INTERNAL_def)

subsection \<open>The slot scan\<close>

lemma unat_succ_lt:
  fixes i :: u32
  assumes "i < m"
  shows "unat (i + 1) = unat i + 1"
proof -
  have "unat i < unat m" using assms by (simp add: word_less_nat_alt)
  moreover have "unat m < 2 ^ 32" using unsigned_less [of m] by simp
  ultimately have "unat i + 1 < 2 ^ 32" by linarith
  then show ?thesis by (simp add: unat_word_ariths)
qed

lemma alloc_slot_loop_range:
  "alloc_slot_loop m bufs i = r \<Longrightarrow> r \<noteq> 0 \<Longrightarrow> i \<le> r \<and> r < m \<and> bufs (unat r) = None"
proof (induction m bufs i rule: alloc_slot_loop.induct)
  case (1 m bufs i)
  show ?case
  proof (cases "i < m")
    case False
    with 1 show ?thesis by (simp add: alloc_slot_loop.simps [of m bufs i])
  next
    case lt: True
    show ?thesis
    proof (cases "bufs (unat i) = None")
      case True
      with lt 1 show ?thesis by (simp add: alloc_slot_loop.simps [of m bufs i])
    next
      case False
      with lt 1(2) have "alloc_slot_loop m bufs (i + 1) = r"
        by (simp add: alloc_slot_loop.simps [of m bufs i])
      with 1(1) [OF lt False] 1(3) have "i + 1 \<le> r \<and> r < m \<and> bufs (unat r) = None" by simp
      moreover have "i \<le> i + 1" using unat_succ_lt [OF lt] by (simp add: word_le_nat_alt)
      ultimately show ?thesis by auto
    qed
  qed
qed

lemma alloc_slot_loop_zero_iff:
  "0 < i \<Longrightarrow>
   alloc_slot_loop m bufs i = 0 \<longleftrightarrow> (\<forall>j. i \<le> j \<and> j < m \<longrightarrow> bufs (unat j) \<noteq> None)"
proof (induction m bufs i rule: alloc_slot_loop.induct)
  case (1 m bufs i)
  show ?case
  proof (cases "i < m")
    case False
    then show ?thesis by (auto simp add: alloc_slot_loop.simps [of m bufs i])
  next
    case lt: True
    have step: "unat (i + 1) = unat i + 1" by (rule unat_succ_lt [OF lt])
    have pos: "0 < i + 1" using step by (simp add: word_less_nat_alt)
    show ?thesis
    proof (cases "bufs (unat i) = None")
      case True
      with lt 1(2) show ?thesis
        by (auto simp add: alloc_slot_loop.simps [of m bufs i])
    next
      case False
      have "alloc_slot_loop m bufs i = alloc_slot_loop m bufs (i + 1)"
        using lt False by (subst alloc_slot_loop.simps) auto
      also have "\<dots> = 0 \<longleftrightarrow> (\<forall>j. i + 1 \<le> j \<and> j < m \<longrightarrow> bufs (unat j) \<noteq> None)"
        using 1(1) [OF lt False pos] .
      also have "\<dots> \<longleftrightarrow> (\<forall>j. i \<le> j \<and> j < m \<longrightarrow> bufs (unat j) \<noteq> None)"
      proof -
        have "i \<le> j \<longleftrightarrow> j = i \<or> i + 1 \<le> j" for j
          using step by (auto simp add: word_le_nat_alt word_unat_eq_iff)
        then show ?thesis using False by auto
      qed
      finally show ?thesis .
    qed
  qed
qed

lemma alloc_slot_loop_first:
  "alloc_slot_loop m bufs i = r \<Longrightarrow> r \<noteq> 0 \<Longrightarrow> i \<le> j \<Longrightarrow> j < r \<Longrightarrow> bufs (unat j) \<noteq> None"
proof (induction m bufs i rule: alloc_slot_loop.induct)
  case (1 m bufs i)
  show ?case
  proof (cases "i < m")
    case False
    with 1 show ?thesis by (simp add: alloc_slot_loop.simps [of m bufs i])
  next
    case lt: True
    have step: "unat (i + 1) = unat i + 1" by (rule unat_succ_lt [OF lt])
    show ?thesis
    proof (cases "bufs (unat i) = None")
      case True
      with lt 1(2) have "r = i" by (simp add: alloc_slot_loop.simps [of m bufs i])
      with 1(4,5) show ?thesis by simp
    next
      case False
      with lt 1(2) have r: "alloc_slot_loop m bufs (i + 1) = r"
        by (simp add: alloc_slot_loop.simps [of m bufs i])
      show ?thesis
      proof (cases "j = i")
        case True
        with False show ?thesis by simp
      next
        case ne: False
        with 1(4) step have "i + 1 \<le> j"
          by (auto simp add: word_le_nat_alt word_unat_eq_iff)
        from 1(1) [OF lt False r 1(3) this 1(5)] show ?thesis .
      qed
    qed
  qed
qed


lemma alloc_slot_loop_props:
  assumes "alloc_slot_loop 4096 bufs 1 = h"
  shows "(h \<noteq> 0 \<longrightarrow> 1 \<le> h \<and> h < 4096 \<and> bufs (unat h) = None \<and>
            (\<forall>j::u32. 1 \<le> j \<and> j < h \<longrightarrow> bufs (unat j) \<noteq> None)) \<and>
         (h = 0 \<longleftrightarrow> (\<forall>j::u32. 1 \<le> j \<and> j < 4096 \<longrightarrow> bufs (unat j) \<noteq> None))"
proof -
  have z: "h = 0 \<longleftrightarrow> (\<forall>j::u32. 1 \<le> j \<and> j < 4096 \<longrightarrow> bufs (unat j) \<noteq> None)"
    using alloc_slot_loop_zero_iff [of 1 4096 bufs] assms by simp
  have r: "h \<noteq> 0 \<Longrightarrow> 1 \<le> h \<and> h < 4096 \<and> bufs (unat h) = None"
    using alloc_slot_loop_range [OF assms] by simp
  have f: "h \<noteq> 0 \<Longrightarrow> 1 \<le> j \<Longrightarrow> j < h \<Longrightarrow> bufs (unat j) \<noteq> None" for j
    using alloc_slot_loop_first [OF assms] by simp
  from z r f show ?thesis by blast
qed

text \<open>
  Claim C10. In both shim tables a successful slot allocation returns a handle \<open>h\<close> with
  \<open>1 \<le> h < 4096\<close> whose slot held no buffer when it was granted; the result is 0 exactly
  when every slot 1..4095 holds a buffer, so 0 is never a granted handle; the granted handle
  differs from every live handle, and once a buffer is stored under it the next grant
  is a different handle.
\<close>

theorem alloc_slot_grants_vacant_slot:
  "(x07_ext_openssl_alloc_buf_slot t \<noteq> 0 \<longrightarrow>
      1 \<le> x07_ext_openssl_alloc_buf_slot t \<and> x07_ext_openssl_alloc_buf_slot t < 4096 \<and>
      g_bufs t (unat (x07_ext_openssl_alloc_buf_slot t)) = None \<and>
      (\<forall>h'. live_handle t h' \<longrightarrow> h' \<noteq> x07_ext_openssl_alloc_buf_slot t) \<and>
      x07_ext_openssl_alloc_buf_slot
        (store_slot t (x07_ext_openssl_alloc_buf_slot t) (Some b) n)
        \<noteq> x07_ext_openssl_alloc_buf_slot t) \<and>
   (x07_ext_openssl_alloc_buf_slot t = 0 \<longleftrightarrow>
      (\<forall>j::u32. 1 \<le> j \<and> j < 4096 \<longrightarrow> g_bufs t (unat j) \<noteq> None)) \<and>
   (x07_ext_zlib_alloc_slot t \<noteq> 0 \<longrightarrow>
      1 \<le> x07_ext_zlib_alloc_slot t \<and> x07_ext_zlib_alloc_slot t < 4096 \<and>
      g_bufs t (unat (x07_ext_zlib_alloc_slot t)) = None \<and>
      (\<forall>h'. live_handle t h' \<longrightarrow> h' \<noteq> x07_ext_zlib_alloc_slot t) \<and>
      x07_ext_zlib_alloc_slot (store_slot t (x07_ext_zlib_alloc_slot t) (Some b) n)
        \<noteq> x07_ext_zlib_alloc_slot t) \<and>
   (x07_ext_zlib_alloc_slot t = 0 \<longleftrightarrow>
      (\<forall>j::u32. 1 \<le> j \<and> j < 4096 \<longrightarrow> g_bufs t (unat j) \<noteq> None))"
proof -
  define h where "h = alloc_slot_loop 4096 (g_bufs t) 1"
  define t' where "t' = store_slot t h (Some b) n"
  define h2 where "h2 = alloc_slot_loop 4096 (g_bufs t') 1"
  have o: "x07_ext_openssl_alloc_buf_slot t = h" and z: "x07_ext_zlib_alloc_slot t = h"
    and o': "x07_ext_openssl_alloc_buf_slot t' = h2" and z': "x07_ext_zlib_alloc_slot t' = h2"
    by (simp_all add: x07_ext_openssl_alloc_buf_slot_def x07_ext_zlib_alloc_slot_def
          X07_EXT_OPENSSL_MAX_BUFS_def X07_EXT_ZLIB_MAX_BUFS_def h_def h2_def)
  have p: "(h \<noteq> 0 \<longrightarrow> 1 \<le> h \<and> h < 4096 \<and> g_bufs t (unat h) = None \<and>
              (\<forall>j::u32. 1 \<le> j \<and> j < h \<longrightarrow> g_bufs t (unat j) \<noteq> None)) \<and>
           (h = 0 \<longleftrightarrow> (\<forall>j::u32. 1 \<le> j \<and> j < 4096 \<longrightarrow> g_bufs t (unat j) \<noteq> None))"
    by (rule alloc_slot_loop_props) (simp add: h_def)
  have live: "h' \<noteq> h" if l: "live_handle t h'" and nz: "h \<noteq> 0" for h'
  proof
    assume "h' = h"
    with l have "g_bufs t (unat h) \<noteq> None" by (simp add: live_handle_def)
    moreover from p nz have "g_bufs t (unat h) = None" by (simp only: simp_thms)
    ultimately show False by (simp only: simp_thms)
  qed
  have nxt: "h2 \<noteq> h" if nz: "h \<noteq> 0"
  proof
    assume e: "h2 = h"
    have "alloc_slot_loop 4096 (g_bufs t') 1 = h" using e by (simp only: h2_def)
    from alloc_slot_loop_range [OF this nz] have "g_bufs t' (unat h) = None" by simp
    then show False by (simp add: t'_def store_slot_def)
  qed
  have c1: "h \<noteq> 0 \<longrightarrow>
      1 \<le> h \<and> h < 4096 \<and> g_bufs t (unat h) = None \<and>
      (\<forall>h'. live_handle t h' \<longrightarrow> h' \<noteq> h) \<and> h2 \<noteq> h"
  proof
    assume nz: "h \<noteq> 0"
    from p nz have "1 \<le> h \<and> h < 4096 \<and> g_bufs t (unat h) = None" by simp
    moreover have "\<forall>h'. live_handle t h' \<longrightarrow> h' \<noteq> h" using live [OF _ nz] by simp
    moreover have "h2 \<noteq> h" by (rule nxt [OF nz])
    ultimately show "1 \<le> h \<and> h < 4096 \<and> g_bufs t (unat h) = None \<and>
      (\<forall>h'. live_handle t h' \<longrightarrow> h' \<noteq> h) \<and> h2 \<noteq> h" by simp
  qed
  have c2: "h = 0 \<longleftrightarrow> (\<forall>j::u32. 1 \<le> j \<and> j < 4096 \<longrightarrow> g_bufs t (unat j) \<noteq> None)"
    using p by (rule conjunct2)
  show ?thesis
    unfolding o z o' [unfolded t'_def] z' [unfolded t'_def]
    by (intro conjI) (rule c1 c2)+
qed

theorem alloc_slot_grants_vacant_slot_witness:
  "x07_ext_openssl_alloc_buf_slot (store_slot empty_table 1 (Some [7]) 1) = 2 \<and>
   x07_ext_zlib_alloc_slot (store_slot empty_table 1 (Some [7]) 1) = 2 \<and>
   live_handle (store_slot empty_table 1 (Some [7]) 1) 1 \<and>
   g_bufs (store_slot empty_table 1 (Some [7]) 1) (unat (2 :: u32)) = None \<and>
   x07_ext_openssl_alloc_buf_slot
     (store_slot (store_slot empty_table 1 (Some [7]) 1) 2 (Some [9]) 1) \<noteq> 2 \<and>
   x07_ext_openssl_alloc_buf_slot empty_table \<noteq> 0 \<and>
   \<not> (\<forall>j::u32. 1 \<le> j \<and> j < 4096 \<longrightarrow> g_bufs empty_table (unat j) \<noteq> None)"
proof -
  let ?T = "store_slot empty_table 1 (Some [7]) 1"
  have a: "x07_ext_openssl_alloc_buf_slot ?T = 2"
    by (simp add: x07_ext_openssl_alloc_buf_slot_def X07_EXT_OPENSSL_MAX_BUFS_def
          store_slot_def empty_table_def alloc_slot_loop.simps)
  have b: "x07_ext_zlib_alloc_slot ?T = 2"
    by (simp add: x07_ext_zlib_alloc_slot_def X07_EXT_ZLIB_MAX_BUFS_def
          store_slot_def empty_table_def alloc_slot_loop.simps)
  have c: "live_handle ?T 1"
    by (simp add: live_handle_def store_slot_def empty_table_def)
  have e: "x07_ext_openssl_alloc_buf_slot empty_table = 1"
    by (simp add: x07_ext_openssl_alloc_buf_slot_def X07_EXT_OPENSSL_MAX_BUFS_def
          empty_table_def alloc_slot_loop.simps)
  from alloc_slot_grants_vacant_slot [of ?T "[9]" 1] a b c
       alloc_slot_grants_vacant_slot [of empty_table "[9]" 1] e
  show ?thesis by simp
qed

subsection \<open>Dropping a dead handle\<close>

lemma buf_free_noop:
  "g_bufs t i = None \<Longrightarrow> g_lens t i = 0 \<Longrightarrow>
   t\<lparr>g_bufs := (g_bufs t)(i := None), g_lens := (g_lens t)(i := 0)\<rparr> = t"
proof -
  assume a: "g_bufs t i = None" and b: "g_lens t i = 0"
  have "(g_bufs t)(i := None) = g_bufs t" using a by (metis fun_upd_triv)
  moreover have "(g_lens t)(i := 0) = g_lens t" using b by (metis fun_upd_triv)
  ultimately show ?thesis by simp
qed

text \<open>
  Claim C7. For \<^verbatim>\<open>x07_ext_zlib_buf_free\<close> and \<^verbatim>\<open>x07_ext_openssl_buf_free\<close>, freeing handle 0,
  a handle of 4096 or more, or a handle whose slot is vacant (never granted, or already
  freed) leaves the table as it is, and freeing twice is the same as freeing once; for
  \<^verbatim>\<open>x07_ext_fs_stream_drop_v1\<close>, dropping a handle that is not open (closed, dropped or
  invalid) leaves the writer table as it is, a second drop changes nothing, and no drop
  traps. The two shim functions are \<^verbatim>\<open>void\<close> and call neither \<^verbatim>\<open>ev_trap\<close> nor
  \<^verbatim>\<open>abort\<close>.
\<close>

theorem drop_of_dead_handle_is_noop:
  "(handle = 0 \<or> 4096 \<le> handle \<or> slot_vacant t handle \<longrightarrow>
      x07_ext_zlib_buf_free handle t = t \<and> x07_ext_openssl_buf_free handle t = t) \<and>
   x07_ext_zlib_buf_free handle (x07_ext_zlib_buf_free handle t) = x07_ext_zlib_buf_free handle t \<and>
   x07_ext_openssl_buf_free handle (x07_ext_openssl_buf_free handle t)
     = x07_ext_openssl_buf_free handle t \<and>
   (w wh = None \<longrightarrow> x07_ext_fs_stream_drop_v1 wh w = Ret w) \<and>
   (\<forall>w'. x07_ext_fs_stream_drop_v1 wh w = Ret w' \<longrightarrow> x07_ext_fs_stream_drop_v1 wh w' = Ret w') \<and>
   (\<forall>c. x07_ext_fs_stream_drop_v1 wh w \<noteq> Trap c)"
proof (intro conjI)
  show "handle = 0 \<or> 4096 \<le> handle \<or> slot_vacant t handle \<longrightarrow>
      x07_ext_zlib_buf_free handle t = t \<and> x07_ext_openssl_buf_free handle t = t"
    by (simp add: x07_ext_zlib_buf_free_def x07_ext_openssl_buf_free_def slot_vacant_def
          X07_EXT_ZLIB_MAX_BUFS_def X07_EXT_OPENSSL_MAX_BUFS_def buf_free_noop)
  show "x07_ext_zlib_buf_free handle (x07_ext_zlib_buf_free handle t)
          = x07_ext_zlib_buf_free handle t"
    by (simp add: x07_ext_zlib_buf_free_def)
  show "x07_ext_openssl_buf_free handle (x07_ext_openssl_buf_free handle t)
          = x07_ext_openssl_buf_free handle t"
    by (simp add: x07_ext_openssl_buf_free_def)
  show "w wh = None \<longrightarrow> x07_ext_fs_stream_drop_v1 wh w = Ret w"
    by (simp add: x07_ext_fs_stream_drop_v1_def)
  show "\<forall>w'. x07_ext_fs_stream_drop_v1 wh w = Ret w' \<longrightarrow> x07_ext_fs_stream_drop_v1 wh w' = Ret w'"
  proof (intro allI impI)
    fix w' assume r: "x07_ext_fs_stream_drop_v1 wh w = Ret w'"
    have "w' wh = None"
    proof (cases "w wh")
      case None
      with r have "w' = w" by (simp add: x07_ext_fs_stream_drop_v1_def)
      with None show ?thesis by simp
    next
      case (Some bs)
      with r have "w' = w(wh := None)" by (simp add: x07_ext_fs_stream_drop_v1_def)
      then show ?thesis by simp
    qed
    then show "x07_ext_fs_stream_drop_v1 wh w' = Ret w'"
      by (simp add: x07_ext_fs_stream_drop_v1_def)
  qed
  show "\<forall>c. x07_ext_fs_stream_drop_v1 wh w \<noteq> Trap c"
    by (cases "w wh") (simp_all add: x07_ext_fs_stream_drop_v1_def)
qed

theorem drop_of_dead_handle_is_noop_witness:
  "x07_ext_zlib_buf_free 0 (store_slot empty_table 1 (Some [7]) 1)
     = store_slot empty_table 1 (Some [7]) 1 \<and>
   x07_ext_openssl_buf_free 5000 (store_slot empty_table 1 (Some [7]) 1)
     = store_slot empty_table 1 (Some [7]) 1 \<and>
   slot_vacant (store_slot empty_table 1 (Some [7]) 1) 2 \<and>
   x07_ext_openssl_buf_free 2 (store_slot empty_table 1 (Some [7]) 1)
     = store_slot empty_table 1 (Some [7]) 1 \<and>
   x07_ext_fs_stream_drop_v1 3 (Map.empty(3 \<mapsto> [1])) = Ret Map.empty \<and>
   x07_ext_fs_stream_drop_v1 3 Map.empty = Ret Map.empty"
proof -
  let ?T = "store_slot empty_table 1 (Some [7]) 1"
  note n0 = drop_of_dead_handle_is_noop [of 0 ?T Map.empty 3, THEN conjunct1]
  note n1 = drop_of_dead_handle_is_noop [of 5000 ?T Map.empty 3, THEN conjunct1]
  note n2 = drop_of_dead_handle_is_noop [of 2 ?T Map.empty 3, THEN conjunct1]
  note fs = drop_of_dead_handle_is_noop [of 0 ?T "Map.empty(3 \<mapsto> [1])" 3,
              THEN conjunct2, THEN conjunct2, THEN conjunct2, THEN conjunct2, THEN conjunct1]
  have v: "slot_vacant ?T 2" by (simp add: slot_vacant_def store_slot_def empty_table_def)
  have d: "x07_ext_fs_stream_drop_v1 3 (Map.empty(3 \<mapsto> [1])) = Ret Map.empty"
    by (simp add: x07_ext_fs_stream_drop_v1_def)
  have a0: "x07_ext_zlib_buf_free 0 ?T = ?T" using n0 by simp
  have a1: "x07_ext_openssl_buf_free 5000 ?T = ?T" using n1 by simp
  have a2: "x07_ext_openssl_buf_free 2 ?T = ?T" using n2 v by simp
  have a3: "x07_ext_fs_stream_drop_v1 3 Map.empty = Ret Map.empty"
    using fs d by blast
  from a0 a1 v a2 d a3 show ?thesis by (intro conjI)
qed

subsection \<open>Random bytes into a slot\<close>

lemma err_doc_3:
  "x07_ext_make_err_doc True 3 = Some ([0, 3, 0, 0, 0, 0, 0, 0, 0], 9)"
  by (simp add: x07_ext_make_err_doc_def x07_ext_write_u32_le_def)

lemma full_table_no_slot: "x07_ext_openssl_alloc_buf_slot full_table = 0"
proof -
  have "\<forall>j::u32. 1 \<le> j \<and> j < 4096 \<longrightarrow> g_bufs full_table (unat j) \<noteq> None"
  proof (intro allI impI)
    fix j :: u32 assume "1 \<le> j \<and> j < 4096"
    then have "1 \<le> unat j \<and> unat j < 4096"
      by (simp add: word_le_nat_alt word_less_nat_alt)
    then show "g_bufs full_table (unat j) \<noteq> None" by (simp add: full_table_def)
  qed
  then show ?thesis
    using alloc_slot_loop_zero_iff [of 1 4096 "g_bufs full_table"]
    by (simp add: x07_ext_openssl_alloc_buf_slot_def X07_EXT_OPENSSL_MAX_BUFS_def)
qed

text \<open>
  Claim C9, as stated, fails: with every slot 1..4095 taken, a request of 1048577 bytes
  (more than 1 MiB) returns -1, leaves \<^verbatim>\<open>*out_handle\<close> at 0 and stores nothing, though
  every allocation succeeds.
\<close>

theorem rand_bytes_alloc_full_table_fails:
  "x07_ext_openssl_rand_bytes_alloc env_all_ok 1048577 full_table = (- 1, 0, full_table)"
  by (simp add: x07_ext_openssl_rand_bytes_alloc_def err_doc_3 env_all_ok_def full_table_no_slot)

lemma granted_slot_in_range:
  assumes "x07_ext_openssl_alloc_buf_slot t \<noteq> 0"
  shows "x07_ext_openssl_alloc_buf_slot t < 4096"
  using alloc_slot_loop_range [of 4096 "g_bufs t" 1 "x07_ext_openssl_alloc_buf_slot t"] assms
  by (simp add: x07_ext_openssl_alloc_buf_slot_def X07_EXT_OPENSSL_MAX_BUFS_def)

lemma stored_doc_readable:
  assumes "h \<noteq> 0" and "h < 4096"
  shows "x07_ext_openssl_buf_len (store_slot t h (Some doc) n) h = n \<and>
         x07_ext_openssl_buf_ptr (store_slot t h (Some doc) n) h = Some doc"
proof -
  have "\<not> (4096 :: u32) \<le> h" using assms(2) by (simp add: not_le)
  with assms(1) show ?thesis
    by (simp add: x07_ext_openssl_buf_len_def x07_ext_openssl_buf_ptr_def store_slot_def
          X07_EXT_OPENSSL_MAX_BUFS_def)
qed

lemma unat_need:
  fixes len :: u32
  assumes "len \<le> 1048576"
  shows "unat (1 + len) = 1 + unat len"
proof -
  have "unat len \<le> 1048576" using assms by (simp add: word_le_nat_alt)
  then have "1 + unat len < 2 ^ 32" by simp
  then show ?thesis by (simp add: unat_word_ariths)
qed

text \<open>
  Claim C9, amended. For \<open>len > 1048576\<close> the call never asks for the \<open>1 + len\<close> bytes
  nor for random bytes (its result does not depend on either); it returns 0 with a handle
  to the 9-byte document \<open>[0, 3, 0, 0, 0, 0, 0, 0, 0]\<close> (tag 0, code 3 little-endian, a zero
  word) when the 9-byte allocation succeeds and a slot is free, and otherwise -1 with
  \<^verbatim>\<open>*out_handle\<close> 0 and the table unchanged. For \<open>len \<le> 1048576\<close>, when the allocation
  succeeds, the generator succeeds (or \<open>len = 0\<close>, when it is not called) and a slot is
  free, it returns 0 and the stored document has length \<open>1 + len\<close>: the byte 1 followed by
  the \<open>len\<close> random bytes.
\<close>

theorem rand_bytes_alloc_result:
  fixes env :: rand_env and len :: u32 and t :: buf_table
  shows
  "(1048576 < len \<longrightarrow>
      x07_ext_openssl_rand_bytes_alloc (env\<lparr>malloc_doc := b, rand_ok := r\<rparr>) len t
        = x07_ext_openssl_rand_bytes_alloc env len t \<and>
      (malloc_err env \<and> x07_ext_openssl_alloc_buf_slot t \<noteq> 0 \<longrightarrow>
         fst (x07_ext_openssl_rand_bytes_alloc env len t) = 0 \<and>
         fst (snd (x07_ext_openssl_rand_bytes_alloc env len t)) = x07_ext_openssl_alloc_buf_slot t \<and>
         x07_ext_openssl_buf_len (snd (snd (x07_ext_openssl_rand_bytes_alloc env len t)))
           (fst (snd (x07_ext_openssl_rand_bytes_alloc env len t))) = 9 \<and>
         x07_ext_openssl_buf_ptr (snd (snd (x07_ext_openssl_rand_bytes_alloc env len t)))
           (fst (snd (x07_ext_openssl_rand_bytes_alloc env len t)))
           = Some [0, 3, 0, 0, 0, 0, 0, 0, 0]) \<and>
      (\<not> malloc_err env \<or> x07_ext_openssl_alloc_buf_slot t = 0 \<longrightarrow>
         x07_ext_openssl_rand_bytes_alloc env len t = (- 1, 0, t))) \<and>
   (len \<le> 1048576 \<and> malloc_doc env \<and> (len = 0 \<or> rand_ok env) \<and>
    x07_ext_openssl_alloc_buf_slot t \<noteq> 0 \<longrightarrow>
      fst (x07_ext_openssl_rand_bytes_alloc env len t) = 0 \<and>
      fst (snd (x07_ext_openssl_rand_bytes_alloc env len t)) = x07_ext_openssl_alloc_buf_slot t \<and>
      x07_ext_openssl_buf_len (snd (snd (x07_ext_openssl_rand_bytes_alloc env len t)))
        (fst (snd (x07_ext_openssl_rand_bytes_alloc env len t))) = 1 + len \<and>
      x07_ext_openssl_buf_ptr (snd (snd (x07_ext_openssl_rand_bytes_alloc env len t)))
        (fst (snd (x07_ext_openssl_rand_bytes_alloc env len t)))
        = Some (1 # map (rand_byte env) [0..<unat len]) \<and>
      length (1 # map (rand_byte env) [0..<unat len]) = unat (1 + len))"
proof (intro conjI impI)
  define slot where "slot = x07_ext_openssl_alloc_buf_slot t"
  note d = x07_ext_openssl_rand_bytes_alloc_def
  {
    assume big: "1048576 < len"
    show "x07_ext_openssl_rand_bytes_alloc (env\<lparr>malloc_doc := b, rand_ok := r\<rparr>) len t
            = x07_ext_openssl_rand_bytes_alloc env len t"
      using big by (simp add: d Let_def)
    {
      assume ok: "malloc_err env \<and> x07_ext_openssl_alloc_buf_slot t \<noteq> 0"
      then have nz: "slot \<noteq> 0" and rng: "slot < 4096"
        using granted_slot_in_range [of t] by (simp_all add: slot_def)
      have R: "x07_ext_openssl_rand_bytes_alloc env len t
                 = (0, slot, store_slot t slot (Some [0, 3, 0, 0, 0, 0, 0, 0, 0]) 9)"
        using big ok by (simp add: d err_doc_3 slot_def Let_def)
      note rd = stored_doc_readable [OF nz rng, of t "[0, 3, 0, 0, 0, 0, 0, 0, 0]" 9]
      show "fst (x07_ext_openssl_rand_bytes_alloc env len t) = 0" by (simp add: R)
      show "fst (snd (x07_ext_openssl_rand_bytes_alloc env len t))
              = x07_ext_openssl_alloc_buf_slot t" by (simp add: R slot_def)
      show "x07_ext_openssl_buf_len (snd (snd (x07_ext_openssl_rand_bytes_alloc env len t)))
              (fst (snd (x07_ext_openssl_rand_bytes_alloc env len t))) = 9"
        using rd by (simp add: R)
      show "x07_ext_openssl_buf_ptr (snd (snd (x07_ext_openssl_rand_bytes_alloc env len t)))
              (fst (snd (x07_ext_openssl_rand_bytes_alloc env len t)))
              = Some [0, 3, 0, 0, 0, 0, 0, 0, 0]"
        using rd by (simp add: R)
    }
    {
      assume bad: "\<not> malloc_err env \<or> x07_ext_openssl_alloc_buf_slot t = 0"
      show "x07_ext_openssl_rand_bytes_alloc env len t = (- 1, 0, t)"
      proof (cases "malloc_err env")
        case False
        with big show ?thesis by (simp add: d x07_ext_make_err_doc_def)
      next
        case True
        with bad have "x07_ext_openssl_alloc_buf_slot t = 0" by simp
        with big True show ?thesis by (simp add: d err_doc_3 Let_def)
      qed
    }
  }
  {
    assume h: "len \<le> 1048576 \<and> malloc_doc env \<and> (len = 0 \<or> rand_ok env) \<and>
               x07_ext_openssl_alloc_buf_slot t \<noteq> 0"
    then have nz: "slot \<noteq> 0" and rng: "slot < 4096"
      using granted_slot_in_range [of t] by (simp_all add: slot_def)
    have small: "\<not> 1048576 < len" using h by (simp add: not_less)
    have R: "x07_ext_openssl_rand_bytes_alloc env len t
               = (0, slot, store_slot t slot (Some (1 # map (rand_byte env) [0..<unat len])) (1 + len))"
      using small h by (auto simp add: d slot_def Let_def)
    note rd = stored_doc_readable [OF nz rng, of t "1 # map (rand_byte env) [0..<unat len]" "1 + len"]
    show "fst (x07_ext_openssl_rand_bytes_alloc env len t) = 0" by (simp add: R)
    show "fst (snd (x07_ext_openssl_rand_bytes_alloc env len t))
            = x07_ext_openssl_alloc_buf_slot t" by (simp add: R slot_def)
    show "x07_ext_openssl_buf_len (snd (snd (x07_ext_openssl_rand_bytes_alloc env len t)))
            (fst (snd (x07_ext_openssl_rand_bytes_alloc env len t))) = 1 + len"
      using rd by (simp add: R)
    show "x07_ext_openssl_buf_ptr (snd (snd (x07_ext_openssl_rand_bytes_alloc env len t)))
            (fst (snd (x07_ext_openssl_rand_bytes_alloc env len t)))
            = Some (1 # map (rand_byte env) [0..<unat len])"
      using rd by (simp add: R)
    show "length (1 # map (rand_byte env) [0..<unat len]) = unat (1 + len)"
      using h unat_need [of len] by simp
  }
qed

lemma empty_table_first_slot: "x07_ext_openssl_alloc_buf_slot empty_table = 1"
  by (simp add: x07_ext_openssl_alloc_buf_slot_def X07_EXT_OPENSSL_MAX_BUFS_def
        empty_table_def alloc_slot_loop.simps)

theorem rand_bytes_alloc_result_witness:
  "(1048576 :: u32) < 1048577 \<and> malloc_err env_all_ok \<and>
   x07_ext_openssl_alloc_buf_slot empty_table \<noteq> 0 \<and>
   fst (x07_ext_openssl_rand_bytes_alloc env_all_ok 1048577 empty_table) = 0 \<and>
   fst (snd (x07_ext_openssl_rand_bytes_alloc env_all_ok 1048577 empty_table)) = 1 \<and>
   x07_ext_openssl_buf_len (snd (snd (x07_ext_openssl_rand_bytes_alloc env_all_ok 1048577 empty_table))) 1
     = 9 \<and>
   x07_ext_openssl_buf_ptr (snd (snd (x07_ext_openssl_rand_bytes_alloc env_all_ok 1048577 empty_table))) 1
     = Some [0, 3, 0, 0, 0, 0, 0, 0, 0] \<and>
   (2 :: u32) \<le> 1048576 \<and> malloc_doc env_all_ok \<and> rand_ok env_all_ok \<and>
   fst (x07_ext_openssl_rand_bytes_alloc env_all_ok 2 empty_table) = 0 \<and>
   x07_ext_openssl_buf_len (snd (snd (x07_ext_openssl_rand_bytes_alloc env_all_ok 2 empty_table))) 1
     = 3 \<and>
   x07_ext_openssl_buf_ptr (snd (snd (x07_ext_openssl_rand_bytes_alloc env_all_ok 2 empty_table))) 1
     = Some (1 # map (rand_byte env_all_ok) [0..<unat (2 :: u32)]) \<and>
   x07_ext_openssl_alloc_buf_slot full_table = 0 \<and>
   x07_ext_openssl_rand_bytes_alloc env_all_ok 1048578 full_table = (- 1, 0, full_table)"
proof -
  have g1: "(1048576 :: u32) < 1048577" and g2: "(1048576 :: u32) < 1048578"
    and g3: "(2 :: u32) \<le> 1048576" by simp_all
  have e: "malloc_err env_all_ok" "malloc_doc env_all_ok" "rand_ok env_all_ok"
    by (simp_all add: env_all_ok_def)
  have s: "x07_ext_openssl_alloc_buf_slot empty_table \<noteq> 0"
    by (simp add: empty_table_first_slot)
  note big = rand_bytes_alloc_result [where env = env_all_ok and len = 1048577
      and t = empty_table and b = True and r = True, THEN conjunct1, rule_format, OF g1]
  note big_ok = big [THEN conjunct2, THEN conjunct1, rule_format, OF conjI [OF e(1) s]]
  note full = rand_bytes_alloc_result [where env = env_all_ok and len = 1048578
      and t = full_table and b = True and r = True, THEN conjunct1, rule_format, OF g2,
      THEN conjunct2, THEN conjunct2, rule_format, OF disjI2 [OF full_table_no_slot]]
  note small = rand_bytes_alloc_result [where env = env_all_ok and len = 2
      and t = empty_table and b = True and r = True, THEN conjunct2, rule_format,
      OF conjI [OF g3 conjI [OF e(2) conjI [OF disjI2 [OF e(3)] s]]]]
  have three: "(1 :: u32) + 2 = 3" by simp
  show ?thesis
    apply (insert g1 g3 e s big_ok full small full_table_no_slot)
    apply (elim conjE)
    apply (simp add: empty_table_first_slot)
    done
qed

subsection \<open>Unpadded base64url\<close>

lemma tbl_len: "length b64url_tbl = 64"
  by (simp add: b64url_tbl_def)

lemma tbl_all: "list_all (\<lambda>n. index_of (b64url_tbl ! n) b64url_tbl = Some n) [0..<64]"
  by code_simp

lemma tbl_safe: "list_all is_url_safe b64url_tbl"
  by (simp add: b64url_tbl_def is_url_safe_def)

lemma tbl_index: "n < 64 \<Longrightarrow> index_of (b64url_tbl ! n) b64url_tbl = Some n"
  using tbl_all by (simp add: list_all_iff)

lemma m6: "(0x3f :: 'a::len word) = mask 6"
  by (simp add: mask_eq_exp_minus_1)

lemma sextet_small: "unat ((v :: u8) AND 0x3f) < 64"
proof -
  have "unat (v AND 0x3f) \<le> unat (0x3f :: u8)"
    by (rule word_and_le1 [THEN word_le_nat_alt [THEN iffD1]])
  then show ?thesis by simp
qed

lemma sextet_back:
  "(of_nat (unat ((ucast ((x :: u32) AND 0x3f) :: u8) AND 0x3f)) :: u32) = x AND 0x3f"
proof -
  have "(of_nat (unat ((ucast (x AND 0x3f) :: u8) AND 0x3f)) :: u32)
          = ucast ((ucast (x AND 0x3f) :: u8) AND 0x3f)"
    by simp
  also have "\<dots> = x AND 0x3f"
    unfolding m6
    by (rule bit_word_eqI) (auto simp add: bit_simps)
  finally show ?thesis .
qed

lemma value_char:
  "b64url_value (x07_ext_b64url_char (ucast ((x :: u32) AND 0x3f))) = Some (x AND 0x3f)"
proof -
  have "b64url_value (x07_ext_b64url_char (ucast (x AND 0x3f)))
          = Some (of_nat (unat ((ucast (x AND 0x3f) :: u8) AND 0x3f)))"
    by (simp add: b64url_value_def x07_ext_b64url_char_def tbl_index sextet_small)
  then show ?thesis by (simp only: sextet_back)
qed

lemma char_safe: "is_url_safe (x07_ext_b64url_char v)"
proof -
  have "x07_ext_b64url_char v \<in> set b64url_tbl"
    unfolding x07_ext_b64url_char_def
    by (rule nth_mem) (simp add: tbl_len sextet_small)
  with tbl_safe show ?thesis by (simp add: list_all_iff)
qed


lemma bit_sextet:
  "bit (push_bit k (drop_bit k (v :: u32) AND 0x3f)) n \<longleftrightarrow> k \<le> n \<and> n < k + 6 \<and> bit v n"
proof (cases "k \<le> n")
  case False
  then show ?thesis by (simp add: bit_simps)
next
  case True
  then have "k + (n - k) = n" by simp
  with True show ?thesis
    by (auto simp add: m6 bit_simps dest: bit_imp_le_length)
qed

lemma bit_low_sextet:
  "bit ((v :: u32) AND 0x3f) n \<longleftrightarrow> n < 6 \<and> bit v n"
  by (auto simp add: m6 bit_simps)

lemma bits_quad:
  "bit (push_bit 18 (drop_bit 18 v AND 0x3f) OR push_bit 12 (drop_bit 12 v AND 0x3f)
        OR push_bit 6 (drop_bit 6 v AND 0x3f) OR ((v :: u32) AND 0x3f)) n
     \<longleftrightarrow> 0 \<le> n \<and> n < 24 \<and> bit v n"
  unfolding bit_or_iff bit_sextet bit_low_sextet by auto

lemma bits_triple:
  "bit (push_bit 18 (drop_bit 18 v AND 0x3f) OR push_bit 12 (drop_bit 12 v AND 0x3f)
        OR push_bit 6 (drop_bit 6 (v :: u32) AND 0x3f)) n
     \<longleftrightarrow> 6 \<le> n \<and> n < 24 \<and> bit v n"
  unfolding bit_or_iff bit_sextet by auto

lemma bits_pair:
  "bit (push_bit 18 (drop_bit 18 v AND 0x3f) OR push_bit 12 (drop_bit 12 (v :: u32) AND 0x3f)) n
     \<longleftrightarrow> 12 \<le> n \<and> n < 24 \<and> bit v n"
  unfolding bit_or_iff bit_sextet by auto

lemma byte_of_window:
  fixes v w :: u32
  assumes w: "\<And>m. bit w m \<longleftrightarrow> lo \<le> m \<and> m < 24 \<and> bit v m"
    and lo: "lo \<le> k" and hi: "k + 8 \<le> 24"
  shows "(ucast (drop_bit k w) :: u8) = ucast (drop_bit k v)"
proof (rule bit_word_eqI)
  fix n assume "n < LENGTH(8)"
  then have n: "n < 8" by simp
  with lo hi have "lo \<le> k + n" "k + n < 24" by simp_all
  then have "bit w (k + n) \<longleftrightarrow> bit v (k + n)" by (simp add: w)
  then show "bit (ucast (drop_bit k w) :: u8) n \<longleftrightarrow> bit (ucast (drop_bit k v) :: u8) n"
    using n by (simp add: bit_simps)
qed

lemma pack3_bytes:
  fixes a b c :: u8
  defines "v \<equiv> (push_bit 16 (ucast a) OR push_bit 8 (ucast b) OR ucast c :: u32)"
  shows "(ucast (drop_bit 16 v) :: u8) = a" and "(ucast (drop_bit 8 v) :: u8) = b"
    and "(ucast (drop_bit 0 v) :: u8) = c"
  unfolding v_def
  by (rule bit_word_eqI; auto simp add: bit_simps dest: bit_imp_le_length)+

lemma pack2_bytes:
  fixes a b :: u8
  defines "v \<equiv> (push_bit 16 (ucast a) OR push_bit 8 (ucast b) :: u32)"
  shows "(ucast (drop_bit 16 v) :: u8) = a" and "(ucast (drop_bit 8 v) :: u8) = b"
  unfolding v_def
  by (rule bit_word_eqI; auto simp add: bit_simps dest: bit_imp_le_length)+

lemma pack1_bytes:
  fixes a :: u8
  shows "(ucast (drop_bit 16 (push_bit 16 (ucast a) :: u32)) :: u8) = a"
  by (rule bit_word_eqI; auto simp add: bit_simps dest: bit_imp_le_length)+

lemma loop_groups:
  "len = length data \<Longrightarrow> i \<le> len \<Longrightarrow>
   b64url_tail data len (fst (b64url_loop data len i out)) (snd (b64url_loop data len i out))
     = out @ b64url_groups (drop i data)"
proof (induction data len i out rule: b64url_loop.induct)
  case (1 data len i out)
  show ?case
  proof (cases "i + 3 \<le> len")
    case True
    with 1(2) have d: "drop i data = data ! i # data ! (i + 1) # data ! (i + 2) # drop (i + 3) data"
      by (simp add: Cons_nth_drop_Suc [symmetric] numeral_3_eq_3)
    let ?v = "(push_bit 16 (ucast (data ! i)) OR push_bit 8 (ucast (data ! (i + 1)))
                  OR ucast (data ! (i + 2)) :: u32)"
    have ih: "b64url_tail data len (fst (b64url_loop data len (i + 3) (out @ [x07_ext_b64url_char (ucast (drop_bit 18 ?v AND 0x3f)),
                      x07_ext_b64url_char (ucast (drop_bit 12 ?v AND 0x3f)),
                      x07_ext_b64url_char (ucast (drop_bit 6 ?v AND 0x3f)),
                      x07_ext_b64url_char (ucast (?v AND 0x3f))])))
             (snd (b64url_loop data len (i + 3) (out @ [x07_ext_b64url_char (ucast (drop_bit 18 ?v AND 0x3f)),
                      x07_ext_b64url_char (ucast (drop_bit 12 ?v AND 0x3f)),
                      x07_ext_b64url_char (ucast (drop_bit 6 ?v AND 0x3f)),
                      x07_ext_b64url_char (ucast (?v AND 0x3f))])))
           = (out @ [x07_ext_b64url_char (ucast (drop_bit 18 ?v AND 0x3f)),
                      x07_ext_b64url_char (ucast (drop_bit 12 ?v AND 0x3f)),
                      x07_ext_b64url_char (ucast (drop_bit 6 ?v AND 0x3f)),
                      x07_ext_b64url_char (ucast (?v AND 0x3f))]) @ b64url_groups (drop (i + 3) data)"
      using 1(1) [OF True refl 1(2)] True by simp
    have "b64url_loop data len i out = b64url_loop data len (i + 3) (out @ [x07_ext_b64url_char (ucast (drop_bit 18 ?v AND 0x3f)),
                      x07_ext_b64url_char (ucast (drop_bit 12 ?v AND 0x3f)),
                      x07_ext_b64url_char (ucast (drop_bit 6 ?v AND 0x3f)),
                      x07_ext_b64url_char (ucast (?v AND 0x3f))])"
      using True by (subst b64url_loop.simps) (simp add: Let_def)
    with ih show ?thesis by (simp add: d Let_def)
  next
    case False
    then have l: "b64url_loop data len i out = (i, out)"
      by (subst b64url_loop.simps) simp
    from False 1(3) have "len - i = 0 \<or> len - i = 1 \<or> len - i = 2" by arith
    then show ?thesis
    proof (elim disjE)
      assume r: "len - i = 0"
      with 1(2,3) have "drop i data = []" by simp
      with r show ?thesis unfolding l by (simp add: b64url_tail_def)
    next
      assume r: "len - i = 1"
      with 1(2) have "i < length data" "length data \<le> Suc i" by simp_all
      then have "drop i data = [data ! i]"
        by (simp add: Cons_nth_drop_Suc [symmetric])
      with r show ?thesis unfolding l by (simp add: b64url_tail_def Let_def)
    next
      assume r: "len - i = 2"
      with 1(2) have "i < length data" "Suc i < length data" "length data \<le> Suc (Suc i)"
        by simp_all
      then have "drop i data = [data ! i, data ! (i + 1)]"
        by (simp add: Cons_nth_drop_Suc [symmetric])
      with r show ?thesis unfolding l by (simp add: b64url_tail_def Let_def)
    qed
  qed
qed

lemma length_groups:
  "length (b64url_groups bs) =
     4 * (length bs div 3) +
     (if length bs mod 3 = 0 then 0 else if length bs mod 3 = 1 then 2 else 3)"
proof (induction bs rule: b64url_groups.induct)
  case (1 a b c rest)
  have d: "(3 + length rest) div 3 = Suc (length rest div 3)" by arith
  have m: "(3 + length rest) mod 3 = length rest mod 3" by arith
  from 1 show ?case by (simp add: Let_def d m)
qed (simp_all add: Let_def)

lemma groups_safe: "c \<in> set (b64url_groups bs) \<Longrightarrow> is_url_safe c"
  by (induction bs rule: b64url_groups.induct) (auto simp add: Let_def char_safe)

lemma url_safe_not_pad: "is_url_safe c \<Longrightarrow> c \<noteq> CHR ''='' \<and> c \<noteq> CHR 0x00"
  by (auto simp add: is_url_safe_def)

lemma decode_groups: "b64url_decode (b64url_groups bs) = Some bs"
proof (induction bs rule: b64url_groups.induct)
  case (1 a b c rest)
  let ?v = "(push_bit 16 (ucast a) OR push_bit 8 (ucast b) OR ucast c :: u32)"
  let ?w = "push_bit 18 (drop_bit 18 ?v AND 0x3f) OR push_bit 12 (drop_bit 12 ?v AND 0x3f)
               OR push_bit 6 (drop_bit 6 ?v AND 0x3f) OR (?v AND 0x3f)"
  have "(ucast (drop_bit 16 ?w) :: u8) = a"
    using byte_of_window [of ?w 0 ?v 16, OF bits_quad] pack3_bytes(1) [of a b c] by simp
  moreover have "(ucast (drop_bit 8 ?w) :: u8) = b"
    using byte_of_window [of ?w 0 ?v 8, OF bits_quad] pack3_bytes(2) [of a b c] by simp
  moreover have "(ucast ?w :: u8) = c"
    using byte_of_window [of ?w 0 ?v 0, OF bits_quad] pack3_bytes(3) [of a b c] by simp
  ultimately show ?case
    using 1 by (simp add: Let_def value_char)
next
  case (2 a b)
  let ?v = "(push_bit 16 (ucast a) OR push_bit 8 (ucast b) :: u32)"
  let ?w = "push_bit 18 (drop_bit 18 ?v AND 0x3f) OR push_bit 12 (drop_bit 12 ?v AND 0x3f)
               OR push_bit 6 (drop_bit 6 ?v AND 0x3f)"
  have "(ucast (drop_bit 16 ?w) :: u8) = a"
    using byte_of_window [of ?w 6 ?v 16, OF bits_triple] pack2_bytes(1) [of a b] by simp
  moreover have "(ucast (drop_bit 8 ?w) :: u8) = b"
    using byte_of_window [of ?w 6 ?v 8, OF bits_triple] pack2_bytes(2) [of a b] by simp
  ultimately show ?case by (simp add: Let_def value_char)
next
  case (3 a)
  let ?v = "(push_bit 16 (ucast a) :: u32)"
  let ?w = "push_bit 18 (drop_bit 18 ?v AND 0x3f) OR push_bit 12 (drop_bit 12 ?v AND 0x3f)"
  have "(ucast (drop_bit 16 ?w) :: u8) = a"
    using byte_of_window [of ?w 12 ?v 16, OF bits_pair] pack1_bytes [of a] by simp
  then show ?case by (simp add: Let_def value_char)
next
  case 4
  show ?case by simp
qed

lemma nopad_groups:
  "x07_ext_b64url_nopad True (Some bs) (length bs)
     = Some (b64url_groups bs @ [CHR 0x00], length (b64url_groups bs))"
proof -
  have "b64url_tail bs (length bs) (fst (b64url_loop bs (length bs) 0 []))
          (snd (b64url_loop bs (length bs) 0 [])) = b64url_groups bs"
    using loop_groups [of "length bs" bs 0 "[]"] by simp
  then show ?thesis
    by (simp add: x07_ext_b64url_nopad_def Let_def case_prod_beta)
qed

text \<open>
  Claim C8, as stated, fails: when the output buffer cannot be allocated the function
  returns the null pointer, also for a three-byte input with a non-null pointer.
\<close>

theorem b64url_nopad_malloc_failure:
  "x07_ext_b64url_nopad False (Some [0x66, 0x6f, 0x6f]) 3 = None"
  by (simp add: x07_ext_b64url_nopad_def)

text \<open>
  Claim C8, amended. For a byte string \<open>bs\<close> of length \<open>n\<close> behind a non-null pointer,
  \<^verbatim>\<open>x07_ext_b64url_nopad\<close> returns null when the allocation fails, and otherwise a
  NUL-terminated string \<open>s\<close> with reported length \<open>length s = 4 * (n div 3)\<close> plus 0, 2 or 3
  for \<open>n mod 3\<close> = 0, 1 or 2, which fits the \<open>cap + 1\<close> bytes allocated, holds only
  characters of the URL-safe alphabet (so neither \<open>=\<close> nor NUL), and decodes back to
  \<open>bs\<close>.
\<close>

theorem b64url_nopad_encodes:
  "x07_ext_b64url_nopad False (Some bs) (length bs) = None \<and>
   (\<exists>s. x07_ext_b64url_nopad True (Some bs) (length bs) = Some (s @ [CHR 0x00], length s) \<and>
        length s = 4 * (length bs div 3) +
                   (if length bs mod 3 = 0 then 0 else if length bs mod 3 = 1 then 2 else 3) \<and>
        length s \<le> ((length bs + 2) div 3) * 4 \<and>
        (\<forall>c \<in> set s. is_url_safe c \<and> c \<noteq> CHR ''='' \<and> c \<noteq> CHR 0x00) \<and>
        b64url_decode s = Some bs)"
proof (intro conjI exI [of _ "b64url_groups bs"] ballI)
  show "x07_ext_b64url_nopad False (Some bs) (length bs) = None"
    by (simp add: x07_ext_b64url_nopad_def)
  show "x07_ext_b64url_nopad True (Some bs) (length bs)
          = Some (b64url_groups bs @ [CHR 0x00], length (b64url_groups bs))"
    by (rule nopad_groups)
  show "length (b64url_groups bs) = 4 * (length bs div 3) +
          (if length bs mod 3 = 0 then 0 else if length bs mod 3 = 1 then 2 else 3)"
    by (rule length_groups)
  show "length (b64url_groups bs) \<le> ((length bs + 2) div 3) * 4"
    unfolding length_groups by (simp split: if_splits) arith
  show "b64url_decode (b64url_groups bs) = Some bs"
    by (rule decode_groups)
next
  fix c assume "c \<in> set (b64url_groups bs)"
  then have "is_url_safe c" by (rule groups_safe)
  with url_safe_not_pad [of c]
  show "is_url_safe c" "c \<noteq> CHR ''=''" "c \<noteq> CHR 0x00" by simp_all
qed

lemma fooba: "x07_ext_b64url_nopad True (Some [0x66, 0x6f, 0x6f, 0x62, 0x61]) 5
   = Some (''Zm9vYmE'' @ [CHR 0x00], 7)"
  by code_simp

theorem b64url_nopad_encodes_witness:
  "x07_ext_b64url_nopad True (Some [0x66, 0x6f, 0x6f, 0x62, 0x61]) 5
     = Some (''Zm9vYmE'' @ [CHR 0x00], 7) \<and>
   list_all (\<lambda>c. is_url_safe c \<and> c \<noteq> CHR ''='' \<and> c \<noteq> CHR 0x00) ''Zm9vYmE'' \<and>
   b64url_decode ''Zm9vYmE'' = Some [0x66, 0x6f, 0x6f, 0x62, 0x61]"
proof -
  from b64url_nopad_encodes [of "[0x66, 0x6f, 0x6f, 0x62, 0x61]"]
  obtain s where
    e: "x07_ext_b64url_nopad True (Some [0x66, 0x6f, 0x6f, 0x62, 0x61])
          (length [0x66, 0x6f, 0x6f, 0x62, 0x61 :: u8]) = Some (s @ [CHR 0x00], length s)"
    and a: "\<forall>c \<in> set s. is_url_safe c \<and> c \<noteq> CHR ''='' \<and> c \<noteq> CHR 0x00"
    and d: "b64url_decode s = Some [0x66, 0x6f, 0x6f, 0x62, 0x61]"
    by blast
  have l: "length [0x66, 0x6f, 0x6f, 0x62, 0x61 :: u8] = 5" by simp
  from e have "x07_ext_b64url_nopad True (Some [0x66, 0x6f, 0x6f, 0x62, 0x61]) 5
                 = Some (s @ [CHR 0x00], length s)"
    by (simp only: l)
  with fooba have "s @ [CHR 0x00] = ''Zm9vYmE'' @ [CHR 0x00]" by simp
  then have "s = ''Zm9vYmE''" by (simp only: append_same_eq)
  with a d fooba show ?thesis by (simp only: list_all_iff simp_thms)
qed

subsection \<open>Fixed-width numeric payloads\<close>

lemma length_le_bytes: "length (le_bytes n w) = n"
  by (induction n arbitrary: w) simp_all

lemma le_word_le_bytes: "le_word (le_bytes n w) = take_bit (8 * n) w"
proof (induction n arbitrary: w)
  case 0
  show ?case by simp
next
  case (Suc n)
  show ?case
    apply (simp add: Suc)
    apply (rule bit_word_eqI)
    apply (auto simp add: bit_simps)
    done
qed

lemma bit_le_word:
  "bit (le_word bs :: 'a::len word) n \<Longrightarrow> n < 8 * length bs"
proof (induction bs arbitrary: n)
  case Nil
  then show ?case by simp
next
  case (Cons b bs)
  from Cons.prems have "bit b n \<or> (8 \<le> n \<and> bit (le_word bs :: 'a word) (n - 8))"
    by (auto simp add: bit_simps)
  then show ?case
  proof
    assume "bit b n"
    then have "n < 8" using bit_imp_le_length [of b n] by simp
    then show ?thesis by simp
  next
    assume a: "8 \<le> n \<and> bit (le_word bs :: 'a word) (n - 8)"
    then have "n - 8 < 8 * length bs" using Cons.IH by blast
    with a show ?thesis by simp
  qed
qed

lemma le_bytes_le_word:
  "8 * length bs \<le> LENGTH('a::len) \<Longrightarrow> le_bytes (length bs) (le_word bs :: 'a word) = bs"
proof (induction bs)
  case Nil
  show ?case by simp
next
  case (Cons b bs)
  then have ih: "le_bytes (length bs) (le_word bs :: 'a word) = bs" by simp
  have h: "(ucast (ucast b OR push_bit 8 (le_word bs :: 'a word)) :: u8) = b"
  proof (rule bit_word_eqI)
    fix n assume "n < LENGTH(8)"
    then have n: "n < 8" by simp
    with Cons.prems have "n < LENGTH('a)" by simp
    with n show "bit (ucast (ucast b OR push_bit 8 (le_word bs :: 'a word)) :: u8) n
                   \<longleftrightarrow> bit b n"
      by (simp add: bit_simps)
  qed
  have t: "drop_bit 8 (ucast b OR push_bit 8 (le_word bs :: 'a word)) = le_word bs"
  proof (rule bit_word_eqI)
    fix n assume n: "n < LENGTH('a)"
    show "bit (drop_bit 8 (ucast b OR push_bit 8 (le_word bs :: 'a word))) n
            \<longleftrightarrow> bit (le_word bs :: 'a word) n"
    proof (cases "bit (le_word bs :: 'a word) n")
      case True
      then have "n < 8 * length bs" by (rule bit_le_word)
      with Cons.prems have "8 + n < LENGTH('a)" by simp
      with True show ?thesis by (simp add: bit_simps)
    next
      case False
      moreover have "\<not> bit b (8 + n)" using bit_imp_le_length [of b "8 + n"] by auto
      ultimately show ?thesis by (simp add: bit_simps)
    qed
  qed
  have "le_bytes (length (b # bs)) (le_word (b # bs) :: 'a word)
          = ucast (le_word (b # bs) :: 'a word)
              # le_bytes (length bs) (drop_bit 8 (le_word (b # bs) :: 'a word))"
    by (simp only: list.size le_bytes.simps add_Suc_right Nat.add_0_right One_nat_def)
  also have "\<dots> = b # bs" by (simp only: le_word.simps h t ih)
  finally show ?case .
qed

text \<open>
  Claim C5. Decoding the little-endian encoding of any 64-bit pattern (any f64, NaN
  payloads, zeros and infinities included) or of any u32 gives the value back, and
  \<^verbatim>\<open>ev_math_f64_to_bits_u64le_v1\<close> returns exactly the 8 bytes it was given.
\<close>

theorem fixed_width_roundtrip:
  "decode_f64le (encode_f64le w) = Ret w \<and>
   decode_u32le (encode_u32le v) = Ret v \<and>
   ev_math_f64_to_bits_u64le_v1 (encode_f64le w) = Ret (encode_f64le w) \<and>
   (length x = 8 \<longrightarrow> ev_math_f64_to_bits_u64le_v1 x = Ret x)"
proof (intro conjI impI)
  show f: "decode_f64le (encode_f64le w) = Ret w"
    by (simp add: decode_f64le_def encode_f64le_def length_le_bytes le_word_le_bytes
          take_bit_word_eq_self)
  show "decode_u32le (encode_u32le v) = Ret v"
    by (simp add: decode_u32le_def encode_u32le_def length_le_bytes le_word_le_bytes
          take_bit_word_eq_self)
  show "ev_math_f64_to_bits_u64le_v1 (encode_f64le w) = Ret (encode_f64le w)"
    by (simp add: ev_math_f64_to_bits_u64le_v1_def with_f64_def f) (simp add: encode_f64le_def)
  assume l: "length x = 8"
  have "le_bytes (length x) (le_word x :: u64) = x"
    by (rule le_bytes_le_word) (simp add: l)
  then show "ev_math_f64_to_bits_u64le_v1 x = Ret x"
    by (simp add: ev_math_f64_to_bits_u64le_v1_def with_f64_def decode_f64le_def l)
qed

lemma nan_payload_bytes:
  "encode_f64le 0x7ff8000000000001 = [1, 0, 0, 0, 0, 0, 0xf8, 0x7f]"
  by code_simp

theorem fixed_width_roundtrip_witness:
  "decode_f64le [1, 0, 0, 0, 0, 0, 0xf8, 0x7f] = Ret 0x7ff8000000000001 \<and>
   length [1, 0, 0, 0, 0, 0, 0xf8, 0x7f :: u8] = 8 \<and>
   ev_math_f64_to_bits_u64le_v1 [1, 0, 0, 0, 0, 0, 0xf8, 0x7f]
     = Ret [1, 0, 0, 0, 0, 0, 0xf8, 0x7f]"
proof -
  have l: "length [1, 0, 0, 0, 0, 0, 0xf8, 0x7f :: u8] = 8" by simp
  note r = fixed_width_roundtrip [where w = "0x7ff8000000000001" and v = 0
      and x = "[1, 0, 0, 0, 0, 0, 0xf8, 0x7f]"]
  from r have "decode_f64le (encode_f64le 0x7ff8000000000001) = Ret 0x7ff8000000000001"
    by (rule conjunct1)
  then have d: "decode_f64le [1, 0, 0, 0, 0, 0, 0xf8, 0x7f] = Ret 0x7ff8000000000001"
    by (simp only: nan_payload_bytes)
  from r l have b: "ev_math_f64_to_bits_u64le_v1 [1, 0, 0, 0, 0, 0, 0xf8, 0x7f]
     = Ret [1, 0, 0, 0, 0, 0, 0xf8, 0x7f]" by blast
  from d l b show ?thesis by (intro conjI)
qed


lemma with_f64_badlen: "length x \<noteq> 8 \<Longrightarrow> with_f64 x k = Trap EV_TRAP_MATH_BADLEN_F64"
  by (simp add: with_f64_def decode_f64le_def)

text \<open>
  Claim C4. Every math entry point that takes f64 byte payloads traps with
  \<^verbatim>\<open>EV_TRAP_MATH_BADLEN_F64\<close> = 9100 when an input is not 8 bytes long, and the u32 decode
  traps with \<^verbatim>\<open>EV_TRAP_MATH_BADLEN_U32\<close> = 9101 when its input is not 4 bytes long; in
  particular \<^verbatim>\<open>ev_math_f64_to_i32_trunc_v1\<close>, the one with a Result type, returns no
  Result at all for a wrong length.
\<close>

theorem bad_length_traps:
  "(length x \<noteq> 8 \<longrightarrow>
      decode_f64le x = Trap EV_TRAP_MATH_BADLEN_F64 \<and>
      ev_math_f64_unop_v1 sem uop x = Trap EV_TRAP_MATH_BADLEN_F64 \<and>
      ev_math_f64_fmt_shortest_v1 sem x = Trap EV_TRAP_MATH_BADLEN_F64 \<and>
      ev_math_f64_to_bits_u64le_v1 x = Trap EV_TRAP_MATH_BADLEN_F64 \<and>
      ev_math_f64_to_i32_trunc_v1 sem x = Trap EV_TRAP_MATH_BADLEN_F64 \<and>
      (\<forall>r. ev_math_f64_to_i32_trunc_v1 sem x \<noteq> Ret r)) \<and>
   (length a \<noteq> 8 \<or> length b \<noteq> 8 \<longrightarrow>
      ev_math_f64_binop_v1 sem bop a b = Trap EV_TRAP_MATH_BADLEN_F64 \<and>
      ev_math_f64_cmp_v1 sem a b = Trap EV_TRAP_MATH_BADLEN_F64) \<and>
   (length y \<noteq> 4 \<longrightarrow> decode_u32le y = Trap EV_TRAP_MATH_BADLEN_U32) \<and>
   EV_TRAP_MATH_BADLEN_F64 = 9100 \<and> EV_TRAP_MATH_BADLEN_U32 = 9101"
proof (intro conjI impI)
  assume x: "length x \<noteq> 8"
  show "decode_f64le x = Trap EV_TRAP_MATH_BADLEN_F64"
    using x by (simp add: decode_f64le_def)
  show "ev_math_f64_unop_v1 sem uop x = Trap EV_TRAP_MATH_BADLEN_F64"
    unfolding ev_math_f64_unop_v1_def by (rule with_f64_badlen [OF x])
  show "ev_math_f64_fmt_shortest_v1 sem x = Trap EV_TRAP_MATH_BADLEN_F64"
    unfolding ev_math_f64_fmt_shortest_v1_def by (rule with_f64_badlen [OF x])
  show "ev_math_f64_to_bits_u64le_v1 x = Trap EV_TRAP_MATH_BADLEN_F64"
    unfolding ev_math_f64_to_bits_u64le_v1_def by (rule with_f64_badlen [OF x])
  show t: "ev_math_f64_to_i32_trunc_v1 sem x = Trap EV_TRAP_MATH_BADLEN_F64"
    unfolding ev_math_f64_to_i32_trunc_v1_def by (rule with_f64_badlen [OF x])
  show "\<forall>r. ev_math_f64_to_i32_trunc_v1 sem x \<noteq> Ret r"
    by (simp add: t)
next
  assume ab: "length a \<noteq> 8 \<or> length b \<noteq> 8"
  show "ev_math_f64_binop_v1 sem bop a b = Trap EV_TRAP_MATH_BADLEN_F64"
    using ab by (cases "length a = 8")
      (simp_all add: ev_math_f64_binop_v1_def with_f64_def decode_f64le_def)
  show "ev_math_f64_cmp_v1 sem a b = Trap EV_TRAP_MATH_BADLEN_F64"
    using ab by (cases "length a = 8")
      (simp_all add: ev_math_f64_cmp_v1_def with_f64_def decode_f64le_def)
next
  assume "length y \<noteq> 4"
  then show "decode_u32le y = Trap EV_TRAP_MATH_BADLEN_U32" by (simp add: decode_u32le_def)
next
  show "EV_TRAP_MATH_BADLEN_F64 = 9100" by (simp add: EV_TRAP_MATH_BADLEN_F64_def)
  show "EV_TRAP_MATH_BADLEN_U32 = 9101" by (simp add: EV_TRAP_MATH_BADLEN_U32_def)
qed

theorem bad_length_traps_witness:
  "length [1, 2, 3, 4, 5, 6, 7 :: u8] \<noteq> 8 \<and>
   ev_math_f64_unop_v1 sem_bits F64_neg [1, 2, 3, 4, 5, 6, 7] = Trap 9100 \<and>
   ev_math_f64_to_i32_trunc_v1 sem_bits [1, 2, 3, 4, 5, 6, 7] = Trap 9100 \<and>
   ev_math_f64_binop_v1 sem_bits F64_add [0, 0, 0, 0, 0, 0, 0, 0] [1, 2, 3, 4, 5, 6, 7, 8, 9]
     = Trap 9100 \<and>
   length [1, 2, 3 :: u8] \<noteq> 4 \<and> decode_u32le [1, 2, 3] = Trap 9101"
proof -
  have a: "length [1, 2, 3, 4, 5, 6, 7 :: u8] \<noteq> 8" by simp
  have b: "length [0, 0, 0, 0, 0, 0, 0, 0 :: u8] \<noteq> 8
             \<or> length [1, 2, 3, 4, 5, 6, 7, 8, 9 :: u8] \<noteq> 8" by simp
  have c: "length [1, 2, 3 :: u8] \<noteq> 4" by simp
  note t = bad_length_traps [where x = "[1, 2, 3, 4, 5, 6, 7]" and sem = sem_bits
      and uop = F64_neg and bop = F64_add and a = "[0, 0, 0, 0, 0, 0, 0, 0]"
      and b = "[1, 2, 3, 4, 5, 6, 7, 8, 9]" and y = "[1, 2, 3]"]
  from t have t1: "ev_math_f64_unop_v1 sem_bits F64_neg [1, 2, 3, 4, 5, 6, 7] = Trap 9100"
    and t2: "ev_math_f64_to_i32_trunc_v1 sem_bits [1, 2, 3, 4, 5, 6, 7] = Trap 9100"
    using a by simp_all
  from t have t3: "ev_math_f64_binop_v1 sem_bits F64_add [0, 0, 0, 0, 0, 0, 0, 0]
                     [1, 2, 3, 4, 5, 6, 7, 8, 9] = Trap 9100"
    using b by simp
  from t have t4: "decode_u32le [1, 2, 3] = Trap 9101" using c by simp
  from a c t1 t2 t3 t4 show ?thesis by (intro conjI)
qed

subsection \<open>Two-phase emit\<close>

lemma host_ok_new: "host_ok (host_new b)"
  by (simp add: host_ok_def host_new_def host_begin_step_def)

lemma host_budget_do: "host_budget (host_do h c) = host_budget h"
  by (cases c) (simp_all add: host_begin_step_def emit_commit_def)

lemma host_ok_do: "host_ok h \<Longrightarrow> host_ok (host_do h c)"
proof (cases c)
  case Begin_step
  assume "host_ok h"
  with Begin_step show ?thesis by (simp add: host_ok_def host_begin_step_def)
next
  case (Alloc p cap)
  assume "host_ok h"
  with Alloc show ?thesis by simp
next
  case (Commit out)
  assume ok: "host_ok h"
  show ?thesis
  proof (cases "out_cap out < out_len out \<or> bytes_left h < out_len out \<or> items_left h = 0")
    case True
    with ok Commit show ?thesis by (simp add: emit_commit_def)
  next
    case False
    then have l: "out_len out \<le> out_cap out" and b: "out_len out \<le> bytes_left h"
      by (simp_all add: not_less)
    have "bytes_left h - out_len out \<le> bytes_left h"
      using b by (simp add: word_sub_le)
    also have "\<dots> \<le> max_out_bytes_per_step (host_budget h)"
      using ok by (simp add: host_ok_def)
    finally have "bytes_left h - out_len out \<le> max_out_bytes_per_step (host_budget h)" .
    with ok l False Commit show ?thesis
      by (simp add: emit_commit_def host_ok_def)
  qed
qed

lemma host_ok_foldl: "host_ok h \<Longrightarrow> host_ok (foldl host_do h calls)"
  by (induction calls arbitrary: h) (simp_all add: host_ok_do)

lemma host_budget_foldl: "host_budget (foldl host_do h calls) = host_budget h"
  by (induction calls arbitrary: h) (simp_all add: host_budget_do)

lemma host_ok_run: "host_ok (host_run b calls)"
  unfolding host_run_def by (rule host_ok_foldl [OF host_ok_new])

lemma host_budget_run: "host_budget (host_run b calls) = b"
  unfolding host_run_def by (simp add: host_budget_foldl host_new_def host_begin_step_def)

text \<open>
  Claim C2. A commit whose descriptor has \<open>len > cap\<close> is rejected by \<^verbatim>\<open>emit_commit\<close>
  (non-zero result, host unchanged); a commit that is accepted has \<open>len \<le> cap\<close> and is
  appended to the output stream; and whatever calls a plugin makes, every descriptor in
  the output stream has \<open>len \<le> cap\<close>.
\<close>

theorem commit_checks_used_against_cap:
  "(out_cap out < out_len out \<longrightarrow>
      fst (emit_commit h out) \<noteq> 0 \<and> snd (emit_commit h out) = h) \<and>
   (fst (emit_commit h out) = 0 \<longrightarrow>
      out_len out \<le> out_cap out \<and> out_stream (snd (emit_commit h out)) = out_stream h @ [out]) \<and>
   list_all (\<lambda>d. out_len d \<le> out_cap d) (out_stream (host_run b calls))"
proof (intro conjI impI)
  assume "out_cap out < out_len out"
  then show "fst (emit_commit h out) \<noteq> 0" "snd (emit_commit h out) = h"
    by (simp_all add: emit_commit_def EMIT_REFUSED_def)
next
  assume a: "fst (emit_commit h out) = 0"
  then have n: "\<not> (out_cap out < out_len out \<or> bytes_left h < out_len out \<or> items_left h = 0)"
    by (auto simp add: emit_commit_def EMIT_REFUSED_def split: if_splits)
  then show "out_len out \<le> out_cap out" by (simp add: not_less)
  from n show "out_stream (snd (emit_commit h out)) = out_stream h @ [out]"
    by (simp add: emit_commit_def)
next
  show "list_all (\<lambda>d. out_len d \<le> out_cap d) (out_stream (host_run b calls))"
    using host_ok_run [of b calls] by (simp add: host_ok_def)
qed

lemma run16:
  "host_run budget16 [Alloc 4096 10, Commit \<lparr>out_ptr = 4096, out_cap = 10, out_len = 10\<rparr>]
     = \<lparr>host_budget = budget16, bytes_left = 6, items_left = 3,
        out_stream = [\<lparr>out_ptr = 4096, out_cap = 10, out_len = 10\<rparr>]\<rparr>"
  by (simp add: host_run_def host_new_def host_begin_step_def emit_commit_def budget16_def)

theorem commit_checks_used_against_cap_witness:
  "out_cap \<lparr>out_ptr = 4096, out_cap = 8, out_len = 9\<rparr>
     < out_len \<lparr>out_ptr = 4096, out_cap = 8, out_len = 9\<rparr> \<and>
   fst (emit_commit (host_new budget16) \<lparr>out_ptr = 4096, out_cap = 8, out_len = 9\<rparr>) \<noteq> 0 \<and>
   snd (emit_commit (host_new budget16) \<lparr>out_ptr = 4096, out_cap = 8, out_len = 9\<rparr>)
     = host_new budget16 \<and>
   fst (emit_commit (host_new budget16) \<lparr>out_ptr = 4096, out_cap = 8, out_len = 8\<rparr>) = 0 \<and>
   out_stream (snd (emit_commit (host_new budget16) \<lparr>out_ptr = 4096, out_cap = 8, out_len = 8\<rparr>))
     = [\<lparr>out_ptr = 4096, out_cap = 8, out_len = 8\<rparr>]"
proof -
  let ?bad = "\<lparr>out_ptr = 4096, out_cap = 8, out_len = 9\<rparr>"
  let ?good = "\<lparr>out_ptr = 4096, out_cap = 8, out_len = 8\<rparr>"
  have a: "out_cap ?bad < out_len ?bad" by simp
  have g: "fst (emit_commit (host_new budget16) ?good) = 0"
    by (simp add: emit_commit_def host_new_def host_begin_step_def budget16_def)
  have e: "out_stream (host_new budget16) = []"
    by (simp add: host_new_def host_begin_step_def)
  note t1 = commit_checks_used_against_cap [where out = ?bad and h = "host_new budget16"
      and b = budget16 and calls = "[]", THEN conjunct1, rule_format, OF a]
  note t2 = commit_checks_used_against_cap [where out = ?good and h = "host_new budget16"
      and b = budget16 and calls = "[]", THEN conjunct2, THEN conjunct1, rule_format, OF g]
  from t2 e have s: "out_stream (snd (emit_commit (host_new budget16) ?good)) = [?good]"
    by simp
  from a t1 g s show ?thesis by (intro conjI) simp_all
qed

text \<open>
  Claim C3. In every host state reached by any sequence of steps and emit calls, an
  \<^verbatim>\<open>emit_alloc\<close> with a capacity above what is left of the per-step byte budget is
  refused (non-zero, no buffer), and a buffer that is handed out has exactly the requested
  capacity, which is at most what is left and so at most \<^verbatim>\<open>max_out_bytes_per_step\<close>.
\<close>

theorem alloc_refuses_over_budget:
  "(bytes_left (host_run b calls) < cap \<longrightarrow>
      fst (emit_alloc (host_run b calls) p cap) \<noteq> 0 \<and>
      snd (emit_alloc (host_run b calls) p cap) = None) \<and>
   (snd (emit_alloc (host_run b calls) p cap) = Some out \<longrightarrow>
      fst (emit_alloc (host_run b calls) p cap) = 0 \<and>
      out_cap out = cap \<and> cap \<le> bytes_left (host_run b calls) \<and>
      out_cap out \<le> max_out_bytes_per_step b)"
proof (intro conjI impI)
  let ?h = "host_run b calls"
  {
    assume "bytes_left ?h < cap"
    then show "fst (emit_alloc ?h p cap) \<noteq> 0" "snd (emit_alloc ?h p cap) = None"
      by (simp_all add: emit_alloc_def EMIT_REFUSED_def)
  }
  {
    assume g: "snd (emit_alloc ?h p cap) = Some out"
    then have n: "\<not> (bytes_left ?h < cap \<or> items_left ?h = 0)"
      by (auto simp add: emit_alloc_def split: if_splits)
    with g have oeq: "out = \<lparr>out_ptr = p, out_cap = cap, out_len = 0\<rparr>"
      by (simp add: emit_alloc_def)
    from n show "fst (emit_alloc ?h p cap) = 0" by (simp add: emit_alloc_def)
    from oeq show c: "out_cap out = cap" by simp
    from n show le: "cap \<le> bytes_left ?h" by (simp add: not_less)
    have "bytes_left ?h \<le> max_out_bytes_per_step b"
      using host_ok_run [of b calls] by (simp add: host_ok_def host_budget_run)
    with le have "cap \<le> max_out_bytes_per_step b" by (rule order_trans)
    with c show "out_cap out \<le> max_out_bytes_per_step b" by simp
  }
qed

theorem alloc_refuses_over_budget_witness:
  "bytes_left (host_run budget16 []) < 32 \<and>
   fst (emit_alloc (host_run budget16 []) 4096 32) \<noteq> 0 \<and>
   snd (emit_alloc (host_run budget16 []) 4096 32) = None \<and>
   bytes_left (host_run budget16
      [Alloc 4096 10, Commit \<lparr>out_ptr = 4096, out_cap = 10, out_len = 10\<rparr>]) < 8 \<and>
   fst (emit_alloc (host_run budget16
      [Alloc 4096 10, Commit \<lparr>out_ptr = 4096, out_cap = 10, out_len = 10\<rparr>]) 8192 8) \<noteq> 0 \<and>
   snd (emit_alloc (host_run budget16 []) 4096 10)
     = Some \<lparr>out_ptr = 4096, out_cap = 10, out_len = 0\<rparr> \<and>
   (10 :: u32) \<le> max_out_bytes_per_step budget16"
proof -
  let ?calls = "[Alloc 4096 10, Commit \<lparr>out_ptr = 4096, out_cap = 10, out_len = 10\<rparr>]"
  let ?buf = "\<lparr>out_ptr = 4096, out_cap = 10, out_len = 0\<rparr>"
  have r0: "host_run budget16 [] = host_new budget16" by (simp add: host_run_def)
  have a: "bytes_left (host_run budget16 []) < 32"
    unfolding r0 by (simp add: host_new_def host_begin_step_def budget16_def)
  have b: "bytes_left (host_run budget16 ?calls) < 8" by (simp add: run16)
  have g: "snd (emit_alloc (host_run budget16 []) 4096 10) = Some ?buf"
    unfolding r0 by (simp add: emit_alloc_def host_new_def host_begin_step_def budget16_def)
  note t1 = alloc_refuses_over_budget [where b = budget16 and calls = "[]" and cap = 32
      and p = 4096 and out = ?buf, THEN conjunct1, rule_format, OF a]
  note t2 = alloc_refuses_over_budget [where b = budget16 and calls = ?calls and cap = 8
      and p = 8192 and out = ?buf, THEN conjunct1, rule_format, OF b]
  note t3 = alloc_refuses_over_budget [where b = budget16 and calls = "[]" and cap = 10
      and p = 4096 and out = ?buf, THEN conjunct2, rule_format, OF g]
  from t3 have c: "(10 :: u32) \<le> max_out_bytes_per_step budget16" by simp
  from a t1 b t2 g c show ?thesis by (intro conjI) simp_all
qed

end
